theory Spec2Isabelle
  imports Main "HOL-Library.Char_ord" "HOL-Library.List_Lexorder"
begin

section \<open>Strings\<close>

text \<open>
  A Python \<open>str\<close> is modelled as a \<open>string\<close>, one \<open>char\<close> per code point below 256.
  With \<open>Char_ord\<close> and \<open>List_Lexorder\<close> the order on \<open>string\<close> is the
  lexicographic order on code points, which is how Python compares strings.
\<close>

definition sep :: char where
  "sep = CHR 0x5C"

definition altsep :: char where
  "altsep = CHR ''/''"

text \<open>\<open>str.lower()\<close>: the upper-case letters below code point 256 are \<open>A\<close>-\<open>Z\<close>
  and \<open>0xC0\<close>-\<open>0xDE\<close> without \<open>0xD7\<close>; each is 32 below its lower-case letter.\<close>

definition upper_letters :: string where
  "upper_letters =
     ''ABCDEFGHIJKLMNOPQRSTUVWXYZ'' @
     [CHR 0xC0, CHR 0xC1, CHR 0xC2, CHR 0xC3, CHR 0xC4, CHR 0xC5, CHR 0xC6, CHR 0xC7,
     CHR 0xC8, CHR 0xC9, CHR 0xCA, CHR 0xCB, CHR 0xCC, CHR 0xCD, CHR 0xCE, CHR 0xCF, CHR
     0xD0, CHR 0xD1, CHR 0xD2, CHR 0xD3, CHR 0xD4, CHR 0xD5, CHR 0xD6, CHR 0xD8, CHR
     0xD9, CHR 0xDA, CHR 0xDB, CHR 0xDC, CHR 0xDD, CHR 0xDE]"

definition lower_letters :: string where
  "lower_letters =
     ''abcdefghijklmnopqrstuvwxyz'' @
     [CHR 0xE0, CHR 0xE1, CHR 0xE2, CHR 0xE3, CHR 0xE4, CHR 0xE5, CHR 0xE6, CHR 0xE7,
     CHR 0xE8, CHR 0xE9, CHR 0xEA, CHR 0xEB, CHR 0xEC, CHR 0xED, CHR 0xEE, CHR 0xEF, CHR
     0xF0, CHR 0xF1, CHR 0xF2, CHR 0xF3, CHR 0xF4, CHR 0xF5, CHR 0xF6, CHR 0xF8, CHR
     0xF9, CHR 0xFA, CHR 0xFB, CHR 0xFC, CHR 0xFD, CHR 0xFE]"

definition lower_char :: "char \<Rightarrow> char" where
  "lower_char c = (case map_of (zip upper_letters lower_letters) c of Some l \<Rightarrow> l | None \<Rightarrow> c)"

definition lower :: "string \<Rightarrow> string" where
  "lower s = map lower_char s"

definition startswith :: "string \<Rightarrow> string \<Rightarrow> bool" where
  "startswith s p = (take (length p) s = p)"

definition endswith :: "string \<Rightarrow> string \<Rightarrow> bool" where
  "endswith s p = (length p \<le> length s \<and> drop (length s - length p) s = p)"

text \<open>\<open>s.split(c)\<close> for a one-character separator: never empty, empty pieces kept.\<close>

fun split :: "string \<Rightarrow> char \<Rightarrow> string list" where
  "split [] c = [[]]"
| "split (x # xs) c =
     (if x = c then [] # split xs c
      else (case split xs c of [] \<Rightarrow> [[x]] | w # ws \<Rightarrow> (x # w) # ws))"

text \<open>\<open>s.find(c, start)\<close> and \<open>s.rfind(c)\<close>, with \<open>None\<close> for Python's \<open>-1\<close>.\<close>

definition str_find :: "string \<Rightarrow> char \<Rightarrow> nat \<Rightarrow> nat option" where
  "str_find s c start =
     (case filter (\<lambda>i. s ! i = c) [start ..< length s] of [] \<Rightarrow> None | i # _ \<Rightarrow> Some i)"

definition str_rfind :: "string \<Rightarrow> char \<Rightarrow> nat option" where
  "str_rfind s c =
     (case filter (\<lambda>i. s ! i = c) (rev [0 ..< length s]) of [] \<Rightarrow> None | i # _ \<Rightarrow> Some i)"

text \<open>\<open>c.join(ws)\<close>.\<close>

fun join :: "char \<Rightarrow> string list \<Rightarrow> string" where
  "join c [] = []"
| "join c [w] = w"
| "join c (w # ws) = w @ c # join c ws"

text \<open>\<open>str(n)\<close> for a non-negative integer, and \<open>'%0wd' % n\<close>.\<close>

definition digit :: "nat \<Rightarrow> char" where
  "digit d = ''0123456789'' ! d"

fun str_nat :: "nat \<Rightarrow> string" where
  "str_nat n = (if n < 10 then [digit n] else str_nat (n div 10) @ [digit (n mod 10)])"

declare str_nat.simps [simp del]

definition zero_pad :: "nat \<Rightarrow> nat \<Rightarrow> string" where
  "zero_pad w n = replicate (w - length (str_nat n)) CHR ''0'' @ str_nat n"

section \<open>pathlib: pure Windows paths\<close>

text \<open>
  The program counts and splits on the backslash, the separator of Windows paths, so the
  paths are those of \<open>pathlib\<close>'s Windows flavour (CPython 3.11). A path object holds a
  drive, a root and the list of its parts; when the path has a drive or a root, the first
  part is the anchor (drive and root together).
\<close>

record ppath =
  drv :: string
  root :: string
  parts :: "string list"

definition drive_letters :: "char set" where
  "drive_letters = set ''abcdefghijklmnopqrstuvwxyzABCDEFGHIJKLMNOPQRSTUVWXYZ''"

text \<open>\<open>_split_extended_path\<close>: the extended-path prefix (two separators, a question mark,
  a separator), with \<open>UNC\<close> and a separator after it.\<close>

definition split_extended_path :: "string \<Rightarrow> string \<times> string" where
  "split_extended_path s =
     (if startswith s [sep, sep, CHR ''?'', sep] then
        (let prefix = take 4 s; s1 = drop 4 s
         in if startswith s1 (''UNC'' @ [sep]) then (prefix @ take 3 s1, sep # drop 3 s1)
            else (prefix, s1))
      else ([], s))"

text \<open>\<open>splitroot\<close>: drive, root and the rest of one path string whose separators are
  already backslashes.\<close>

definition splitroot_drive :: "string \<Rightarrow> string \<Rightarrow> string \<times> string \<times> string" where
  "splitroot_drive prefix part =
     (let first = take 1 part; second = take 1 (drop 1 part); third = take 1 (drop 2 part);
          has_drv = (second = '':'' \<and> first \<noteq> [] \<and> hd first \<in> drive_letters);
          d = (if has_drv then take 2 part else []);
          part1 = (if has_drv then drop 2 part else part);
          first1 = (if has_drv then third else first)
      in if first1 = [sep] then (prefix @ d, [sep], dropWhile (\<lambda>c. c = sep) part1)
         else (prefix @ d, [], part1))"

definition splitroot :: "string \<Rightarrow> string \<times> string \<times> string" where
  "splitroot part0 =
     (let (prefix, part) =
            (if take 1 (drop 1 part0) = [sep] \<and> take 1 part0 = [sep]
             then split_extended_path part0 else ([], part0));
          first = take 1 part; second = take 1 (drop 1 part); third = take 1 (drop 2 part)
      in if second = [sep] \<and> first = [sep] \<and> third \<noteq> [sep] then
           (case str_find part sep 2 of
              None \<Rightarrow> splitroot_drive prefix part
            | Some index \<Rightarrow>
                (case str_find part sep (index + 1) of
                   None \<Rightarrow>
                     (if prefix \<noteq> [] then (prefix @ drop 1 part, [sep], [])
                      else (part, [sep], []))
                 | Some index2 \<Rightarrow>
                     (if index2 = index + 1 then splitroot_drive prefix part
                      else if prefix \<noteq> []
                      then (prefix @ drop 1 (take index2 part), [sep], drop (index2 + 1) part)
                      else (take index2 part, [sep], drop (index2 + 1) part))))
         else splitroot_drive prefix part)"

text \<open>\<open>parse_parts\<close> on one string, which is \<open>Path(s)\<close>: forward slashes become
  backslashes, empty and \<open>.\<close> components are dropped.\<close>

definition Path :: "string \<Rightarrow> ppath" where
  "Path s =
     (if s = [] then \<lparr>drv = [], root = [], parts = []\<rparr>
      else
        (let part = map (\<lambda>c. if c = altsep then sep else c) s;
             (d, r, rel) = splitroot part;
             parsed = filter (\<lambda>x. x \<noteq> [] \<and> x \<noteq> ''.'') (split rel sep)
         in \<lparr>drv = d, root = r,
             parts = (if d \<noteq> [] \<or> r \<noteq> [] then (d @ r) # parsed else parsed)\<rparr>))"

text \<open>\<open>join_parsed_parts\<close>, the rule behind \<open>joinpath\<close> and \<open>/\<close>.\<close>

definition join_parsed_parts :: "ppath \<Rightarrow> ppath \<Rightarrow> ppath" where
  "join_parsed_parts p p2 =
     (if root p2 \<noteq> [] then
        (if drv p2 = [] \<and> drv p \<noteq> []
         then \<lparr>drv = drv p, root = root p2, parts = (drv p @ root p2) # tl (parts p2)\<rparr>
         else p2)
      else if drv p2 \<noteq> [] then
        (if drv p2 = drv p \<or> lower (drv p2) = lower (drv p)
         then \<lparr>drv = drv p, root = root p, parts = parts p @ tl (parts p2)\<rparr>
         else p2)
      else \<lparr>drv = drv p, root = root p, parts = parts p @ parts p2\<rparr>)"

definition joinpath :: "ppath \<Rightarrow> string \<Rightarrow> ppath" where
  "joinpath p s = join_parsed_parts p (Path s)"

text \<open>\<open>str(p)\<close>.\<close>

definition str :: "ppath \<Rightarrow> string" where
  "str p =
     (let s = (if drv p \<noteq> [] \<or> root p \<noteq> [] then drv p @ root p @ join sep (tl (parts p))
               else join sep (parts p))
      in if s = [] then ''.'' else s)"

text \<open>\<open>p.name\<close> and \<open>p.suffix\<close>.\<close>

definition pname :: "ppath \<Rightarrow> string" where
  "pname p =
     (if length (parts p) = (if drv p \<noteq> [] \<or> root p \<noteq> [] then 1 else 0) then []
      else last (parts p))"

definition suffix :: "ppath \<Rightarrow> string" where
  "suffix p =
     (let name = pname p
      in case str_rfind name CHR ''.'' of
           None \<Rightarrow> []
         | Some i \<Rightarrow> (if 0 < i \<and> i < length name - 1 then drop i name else []))"

text \<open>\<open>p.is_absolute()\<close> and \<open>p.absolute()\<close>, the latter relative to the current
  directory \<open>cwd\<close>.\<close>

definition is_absolute :: "ppath \<Rightarrow> bool" where
  "is_absolute p = (root p \<noteq> [] \<and> drv p \<noteq> [])"

definition absolute :: "ppath \<Rightarrow> ppath \<Rightarrow> ppath" where
  "absolute cwd p = (if is_absolute p then p else join_parsed_parts cwd p)"

section \<open>Item\<close>

text \<open>
  The constructor of \<open>Item\<close> receives \<open>size\<close> as an integer or as one of the words
  \<open>FOLDER\<close> and \<open>ZIP\<close>, and \<open>time\<close> as a string (the tree walker) or as the six-number
  tuple of an archive record (the archive walker); it stores \<open>str\<close> of both.
\<close>

type_synonym date_time = "nat \<times> nat \<times> nat \<times> nat \<times> nat \<times> nat"

datatype size_val = Size nat | Token string

datatype time_val = TimeStr string | TimeTuple date_time

fun str_size :: "size_val \<Rightarrow> string" where
  "str_size (Size n) = str_nat n"
| "str_size (Token w) = w"

definition str_date_time :: "date_time \<Rightarrow> string" where
  "str_date_time t =
     (case t of (y, mo, d, h, mi, s) \<Rightarrow>
        ''('' @ str_nat y @ '', '' @ str_nat mo @ '', '' @ str_nat d @ '', '' @
        str_nat h @ '', '' @ str_nat mi @ '', '' @ str_nat s @ '')'')"

fun str_time :: "time_val \<Rightarrow> string" where
  "str_time (TimeStr s) = s"
| "str_time (TimeTuple t) = str_date_time t"

record item =
  path :: string
  level :: int
  name :: string
  size' :: string
  time :: string

definition Item :: "string \<Rightarrow> string \<Rightarrow> size_val \<Rightarrow> time_val \<Rightarrow> item" where
  "Item root_path path0 size0 time0 =
     \<lparr>path = path0,
      level = int (count_list path0 sep) - int (count_list root_path sep) - 1,
      name = last (split path0 sep),
      size' = str_size size0,
      time = str_time time0\<rparr>"

section \<open>Archives and the archive walker\<close>

text \<open>
  An open \<open>ZipFile\<close> is the list of its records, in the order of \<open>infolist()\<close>. A record
  carries its name, its stored size and time, and what becomes of reading its bytes and
  opening them as an archive: an exception, or the archive found there.
\<close>

datatype error = OSError | BadZipFile | ReadError

datatype zrecord =
  ZipInfo (filename: string) (file_size: nat) (date_time: date_time) (content: zcontent)
and zcontent = Raises error | ZipFile "zrecord list"

text \<open>
  \<open>analyze_zip\<close>: the loop over the records is the recursion over the list; \<open>items\<close>
  is what the loop has extended and appended, in that order; an exception ends the walk.
\<close>

fun analyze_zip :: "ppath \<Rightarrow> zrecord list \<Rightarrow> ppath \<Rightarrow> error + item list" where
  "analyze_zip rt [] zip_root = Inr []"
| "analyze_zip rt (ZipInfo fname fsize dt data # zipf) zip_root =
     (let path = joinpath zip_root fname;
          size = Size fsize;
          time = TimeTuple dt;
          size = (if endswith fname ''/'' then Token ''FOLDER'' else size);
          size = (if lower (suffix path) = ''.zip'' then Token ''ZIP'' else size)
      in if lower (suffix path) = ''.zip'' then
           (case data of
              Raises e \<Rightarrow> Inl e
            | ZipFile nested_zip \<Rightarrow>
                (case analyze_zip rt nested_zip path of
                   Inl e \<Rightarrow> Inl e
                 | Inr nested \<Rightarrow>
                     (case analyze_zip rt zipf zip_root of
                        Inl e \<Rightarrow> Inl e
                      | Inr items \<Rightarrow>
                          Inr (nested @ Item (str rt) (str path) size time # items))))
         else
           (case analyze_zip rt zipf zip_root of
              Inl e \<Rightarrow> Inl e
            | Inr items \<Rightarrow> Inr (Item (str rt) (str path) size time # items)))"

text \<open>The times stored in an archive: the \<open>date_time\<close> of every record, those of the
  records of the archives found in its records included.\<close>

fun record_times :: "zrecord list \<Rightarrow> date_time list" where
  "record_times [] = []"
| "record_times (ZipInfo fname fsize dt (Raises e) # zipf) = dt # record_times zipf"
| "record_times (ZipInfo fname fsize dt (ZipFile nz) # zipf) =
     dt # record_times nz @ record_times zipf"

section \<open>The directory listing and the tree walker\<close>

text \<open>
  \<open>datetime.fromtimestamp(t)\<close> is taken as given; \<open>isoformat()\<close> prints it, with the
  microseconds only when they are not zero.
\<close>

record datetime =
  year :: nat
  month :: nat
  day :: nat
  hour :: nat
  minute :: nat
  second :: nat
  microsecond :: nat

definition isoformat :: "datetime \<Rightarrow> string" where
  "isoformat t =
     zero_pad 4 (year t) @ ''-'' @ zero_pad 2 (month t) @ ''-'' @ zero_pad 2 (day t) @ ''T'' @
     zero_pad 2 (hour t) @ '':'' @ zero_pad 2 (minute t) @ '':'' @ zero_pad 2 (second t) @
     (if microsecond t \<noteq> 0 then ''.'' @ zero_pad 6 (microsecond t) else [])"

text \<open>
  One path yielded by \<open>root.rglob('*')\<close>, with what the file system answers about it:
  \<open>stat\<close> is the size and the modification time, or \<open>None\<close> when \<open>path.stat()\<close> or the
  conversion of the time raises; \<open>zip_open\<close> is what \<open>zipfile.ZipFile(path, 'r')\<close> finds.
  Opening a directory for reading fails.
\<close>

record dirent =
  d_path :: ppath
  is_symlink :: bool
  stat :: "(nat \<times> datetime) option"
  is_dir :: bool
  zip_open :: zcontent

definition zipfile_open :: "dirent \<Rightarrow> zcontent" where
  "zipfile_open e = (if is_dir e then Raises OSError else zip_open e)"

text \<open>The loop of \<open>analyze_folder\<close>, up to the sort: the raw sequence.\<close>

fun analyze_folder_loop :: "ppath \<Rightarrow> dirent list \<Rightarrow> error + item list" where
  "analyze_folder_loop rt [] = Inr []"
| "analyze_folder_loop rt (e # es) =
     (if is_symlink e then analyze_folder_loop rt es
      else
        (case stat e of
           None \<Rightarrow> Inl OSError
         | Some (st_size, mtime) \<Rightarrow>
             (let size = Size st_size;
                  time = TimeStr (isoformat mtime);
                  size = (if is_dir e then Token ''FOLDER'' else size);
                  size = (if lower (suffix (d_path e)) = ''.zip'' then Token ''ZIP'' else size)
              in if lower (suffix (d_path e)) = ''.zip'' then
                   (case zipfile_open e of
                      Raises err \<Rightarrow> Inl err
                    | ZipFile zipf \<Rightarrow>
                        (case analyze_zip rt zipf (d_path e) of
                           Inl err \<Rightarrow> Inl err
                         | Inr nested \<Rightarrow>
                             (case analyze_folder_loop rt es of
                                Inl err \<Rightarrow> Inl err
                              | Inr items \<Rightarrow>
                                  Inr (nested @
                                       Item (str rt) (str (d_path e)) size time # items))))
                 else
                   (case analyze_folder_loop rt es of
                      Inl err \<Rightarrow> Inl err
                    | Inr items \<Rightarrow> Inr (Item (str rt) (str (d_path e)) size time # items)))))"

text \<open>\<open>items.sort(key=lambda x: x.path.lower())\<close>: a stable sort on the lower-cased path.\<close>

definition analyze_folder :: "ppath \<Rightarrow> dirent list \<Rightarrow> error + item list" where
  "analyze_folder rt es =
     (case analyze_folder_loop rt es of
        Inl err \<Rightarrow> Inl err
      | Inr items \<Rightarrow> Inr (sort_key (\<lambda>x. lower (path x)) items))"

section \<open>The file system behind the listing\<close>

text \<open>
  What \<open>root.rglob('*')\<close> yields on a directory tree. A node is a file, a directory with
  its named children in the order of \<open>scandir\<close>, or a symbolic link with its target (none
  when the link dangles). \<open>rglob\<close> lists the children of the directory, then what lies
  below each child that is a directory; it does not descend through a symbolic link.
  \<open>stat\<close> and \<open>is_dir\<close> follow a link, \<open>is_symlink\<close> does not.
\<close>

datatype fsnode =
  FsFile "(nat \<times> datetime) option" zcontent
| FsDir "(nat \<times> datetime) option" "(string \<times> fsnode) list"
| FsLink "fsnode option"

definition make_child_relpath :: "ppath \<Rightarrow> string \<Rightarrow> ppath" where
  "make_child_relpath p n = p\<lparr>parts := parts p @ [n]\<rparr>"

fun dirent_of :: "ppath \<Rightarrow> fsnode \<Rightarrow> dirent" where
  "dirent_of p (FsFile st z) =
     \<lparr>d_path = p, is_symlink = False, stat = st, is_dir = False, zip_open = z\<rparr>"
| "dirent_of p (FsDir st cs) =
     \<lparr>d_path = p, is_symlink = False, stat = st, is_dir = True, zip_open = Raises OSError\<rparr>"
| "dirent_of p (FsLink None) =
     \<lparr>d_path = p, is_symlink = True, stat = None, is_dir = False, zip_open = Raises OSError\<rparr>"
| "dirent_of p (FsLink (Some t)) = (dirent_of p t)\<lparr>is_symlink := True\<rparr>"

fun rglob_below :: "ppath \<Rightarrow> (string \<times> fsnode) list \<Rightarrow> dirent list" where
  "rglob_below p [] = []"
| "rglob_below p ((n, FsDir st cs) # rest) =
     (map (\<lambda>(m, c). dirent_of (make_child_relpath (make_child_relpath p n) m) c) cs @
      rglob_below (make_child_relpath p n) cs) @
     rglob_below p rest"
| "rglob_below p ((n, FsFile st z) # rest) = rglob_below p rest"
| "rglob_below p ((n, FsLink t) # rest) = rglob_below p rest"

definition rglob :: "ppath \<Rightarrow> (string \<times> fsnode) list \<Rightarrow> dirent list" where
  "rglob p cs = map (\<lambda>(m, c). dirent_of (make_child_relpath p m) c) cs @ rglob_below p cs"

text \<open>The tree without its symbolic links.\<close>

fun without_links :: "(string \<times> fsnode) list \<Rightarrow> (string \<times> fsnode) list" where
  "without_links [] = []"
| "without_links ((n, FsLink t) # rest) = without_links rest"
| "without_links ((n, FsDir st cs) # rest) = (n, FsDir st (without_links cs)) # without_links rest"
| "without_links ((n, FsFile st z) # rest) = (n, FsFile st z) # without_links rest"

section \<open>The JSON report\<close>

text \<open>The value that \<open>write_json\<close> hands to \<open>json.dump\<close>; a dictionary keeps the order
  in which its keys were written.\<close>

datatype json = JInt int | JStr string | JList "json list" | JObj "(string \<times> json) list"

definition write_json :: "ppath \<Rightarrow> item list \<Rightarrow> json" where
  "write_json folder_path data =
     (let json_list =
            map (\<lambda>d. JObj [(''level'', JInt (level d)),
                            (''name'', JStr (name d)),
                            (''size'', JStr (size' d)),
                            (''time'', JStr (time d)),
                            (''path'', JStr (path d))]) data;
          output = JObj [(''folder'', JStr (str folder_path)), (''items'', JList json_list)]
      in output)"

text \<open>The shape the specification gives for the report, key by key with the type of
  each value.\<close>

datatype jtype = TInt | TStr | TList | TObj

fun jtype_of :: "json \<Rightarrow> jtype" where
  "jtype_of (JInt i) = TInt"
| "jtype_of (JStr s) = TStr"
| "jtype_of (JList js) = TList"
| "jtype_of (JObj kvs) = TObj"

definition spec_item_shape :: "json \<Rightarrow> bool" where
  "spec_item_shape j =
     (case j of
        JObj kvs \<Rightarrow>
          map (\<lambda>(k, v). (k, jtype_of v)) kvs =
            [(''level'', TInt), (''name'', TStr), (''size'', TStr), (''time'', TStr),
             (''path'', TStr)]
      | _ \<Rightarrow> False)"

definition spec_report_shape :: "json \<Rightarrow> bool" where
  "spec_report_shape j =
     (case j of
        JObj [(k1, JStr folder), (k2, JList items)] \<Rightarrow>
          k1 = ''folder'' \<and> k2 = ''items'' \<and> list_all spec_item_shape items
      | _ \<Rightarrow> False)"

section \<open>The main function\<close>

text \<open>
  \<open>main\<close> receives the two command-line arguments; \<open>folder_ok\<close> is whether the folder
  exists and is a directory, \<open>es\<close> what \<open>rglob\<close> lists there. The outcome is what the run
  did: one of the two printed errors, an exception of the scan that nothing catches, or
  the one writer that was called, with its arguments.
\<close>

datatype writer = Write_docx | Write_xlsx | Write_pdf | Write_csv | Write_json

datatype outcome =
  Error_folder
| Exception error
| Error_format string
| Written writer ppath ppath "item list"

definition main :: "string \<Rightarrow> string \<Rightarrow> bool \<Rightarrow> dirent list \<Rightarrow> outcome" where
  "main args_path args_report folder_ok es =
     (let folder_path = Path args_path;
          report_path = Path args_report;
          ex = lower (suffix report_path)
      in if \<not> folder_ok then Error_folder
         else
           (case analyze_folder folder_path es of
              Inl err \<Rightarrow> Exception err
            | Inr data \<Rightarrow>
                if ex = ''.docx'' then Written Write_docx folder_path report_path data
                else if ex = ''.xlsx'' then Written Write_xlsx folder_path report_path data
                else if ex = ''.pdf'' then Written Write_pdf folder_path report_path data
                else if ex = ''.csv'' then Written Write_csv folder_path report_path data
                else if ex = ''.json'' then Written Write_json folder_path report_path data
                else Error_format ex))"

section \<open>The level as the specification words it\<close>

text \<open>The specification computes the level from the absolute paths of the entry and of
  the root; \<open>cwd\<close> is the current directory.\<close>

definition spec_level :: "ppath \<Rightarrow> string \<Rightarrow> string \<Rightarrow> int" where
  "spec_level cwd root_path path0 =
     int (count_list (str (absolute cwd (Path path0))) sep) -
     int (count_list (str (absolute cwd (Path root_path))) sep) - 1"

section \<open>Example trees\<close>

definition mtime0 :: datetime where
  "mtime0 = \<lparr>year = 2024, month = 3, day = 9, hour = 7, minute = 5, second = 1,
             microsecond = 0\<rparr>"

definition plain_file :: "nat \<Rightarrow> fsnode" where
  "plain_file n = FsFile (Some (n, mtime0)) (Raises BadZipFile)"

definition folder :: "(string \<times> fsnode) list \<Rightarrow> fsnode" where
  "folder cs = FsDir (Some (0, mtime0)) cs"

definition zip_file :: "nat \<Rightarrow> zrecord list \<Rightarrow> fsnode" where
  "zip_file n zipf = FsFile (Some (n, mtime0)) (ZipFile zipf)"

definition stamp0 :: date_time where
  "stamp0 = (2024, 3, 9, 7, 5, 0)"

text \<open>\<open>root/a/b/file.txt\<close>.\<close>

definition tree_abfile :: "(string \<times> fsnode) list" where
  "tree_abfile = [(''a'', folder [(''b'', folder [(''file.txt'', plain_file 12)])])]"

text \<open>A root with the two files \<open>Z.txt\<close> and \<open>a.txt\<close>.\<close>

definition tree_Za :: "(string \<times> fsnode) list" where
  "tree_Za = [(''Z.txt'', plain_file 1), (''a.txt'', plain_file 2)]"

text \<open>A root with the one file \<open>a.txt\<close>.\<close>

definition tree_a :: "(string \<times> fsnode) list" where
  "tree_a = [(''a.txt'', plain_file 3)]"

text \<open>A root with a file, a link to a folder that holds a file, a dangling link and a link
  to an archive.\<close>

definition tree_links :: "(string \<times> fsnode) list" where
  "tree_links =
     [(''real.txt'', plain_file 1),
      (''lnk'', FsLink (Some (folder [(''inside.txt'', plain_file 2)]))),
      (''dangling'', FsLink None),
      (''l.zip'', FsLink (Some (zip_file 9 [ZipInfo ''x.txt'' 4 stamp0 (Raises BadZipFile)])))]"

text \<open>The entries that the scan of \<open>C:\root\<close> holding \<open>tree_abfile\<close> returns.\<close>

definition items_abfile :: "item list" where
  "items_abfile =
     [Item (''C:'' @ [sep] @ ''root'') (''C:'' @ [sep] @ ''root'' @ [sep] @ ''a'')
        (Token ''FOLDER'') (TimeStr ''2024-03-09T07:05:01''),
      Item (''C:'' @ [sep] @ ''root'') (''C:'' @ [sep] @ ''root'' @ [sep] @ ''a'' @ [sep] @ ''b'')
        (Token ''FOLDER'') (TimeStr ''2024-03-09T07:05:01''),
      Item (''C:'' @ [sep] @ ''root'')
        (''C:'' @ [sep] @ ''root'' @ [sep] @ ''a'' @ [sep] @ ''b'' @ [sep] @ ''file.txt'')
        (Size 12) (TimeStr ''2024-03-09T07:05:01'')]"

text \<open>The entry that the scan of \<open>.\<close> holding \<open>tree_a\<close> returns.\<close>

definition item_a :: item where
  "item_a = Item ''.'' ''a.txt'' (Size 3) (TimeStr ''2024-03-09T07:05:01'')"

text \<open>The entries that the scan of \<open>C:\root\<close> holding \<open>tree_Za\<close> returns.\<close>

definition items_Za :: "item list" where
  "items_Za =
     [Item (''C:'' @ [sep] @ ''root'') (''C:'' @ [sep] @ ''root'' @ [sep] @ ''a.txt'')
        (Size 2) (TimeStr ''2024-03-09T07:05:01''),
      Item (''C:'' @ [sep] @ ''root'') (''C:'' @ [sep] @ ''root'' @ [sep] @ ''Z.txt'')
        (Size 1) (TimeStr ''2024-03-09T07:05:01'')]"

text \<open>The archive \<open>outer.zip\<close> holds the archive \<open>inner.zip\<close>, which holds \<open>leaf.txt\<close>, and
  the file \<open>readme.txt\<close>; it lies in \<open>C:\root\<close> beside the file \<open>z.txt\<close>.\<close>

definition zip_inner :: "zrecord list" where
  "zip_inner = [ZipInfo ''leaf.txt'' 5 stamp0 (Raises BadZipFile)]"

definition zip_outer :: "zrecord list" where
  "zip_outer =
     [ZipInfo ''inner.zip'' 120 stamp0 (ZipFile zip_inner),
      ZipInfo ''readme.txt'' 7 stamp0 (Raises BadZipFile)]"

definition entry_outer :: dirent where
  "entry_outer =
     \<lparr>d_path = Path ''C:/root/outer.zip'', is_symlink = False, stat = Some (300, mtime0),
      is_dir = False, zip_open = ZipFile zip_outer\<rparr>"

definition entry_z :: dirent where
  "entry_z =
     \<lparr>d_path = Path ''C:/root/z.txt'', is_symlink = False, stat = Some (1, mtime0),
      is_dir = False, zip_open = Raises BadZipFile\<rparr>"

text \<open>A folder named \<open>d.zip\<close> in \<open>C:\root\<close>; the record of a folder named \<open>d.zip\<close> in
  an archive, as archivers write it (no bytes, so no archive to open) and with bytes that
  are an empty archive; and the record of a folder named \<open>d\<close>.\<close>

definition entry_dir_zip :: dirent where
  "entry_dir_zip =
     \<lparr>d_path = Path ''C:/root/d.zip'', is_symlink = False, stat = Some (0, mtime0),
      is_dir = True, zip_open = Raises OSError\<rparr>"

definition record_dir_zip :: zrecord where
  "record_dir_zip = ZipInfo ''d.zip/'' 0 stamp0 (Raises BadZipFile)"

definition record_dir_zip_crafted :: zrecord where
  "record_dir_zip_crafted = ZipInfo ''d.zip/'' 22 stamp0 (ZipFile [])"

definition record_dir :: zrecord where
  "record_dir = ZipInfo ''d/'' 0 stamp0 (Raises BadZipFile)"

text \<open>A path in \<open>C:\root\<close> whose \<open>stat\<close> raises.\<close>

definition entry_locked :: dirent where
  "entry_locked =
     \<lparr>d_path = Path ''C:/root/locked'', is_symlink = False, stat = None,
      is_dir = False, zip_open = Raises OSError\<rparr>"

section \<open>Properties of the walkers\<close>

lemma Item_sel [simp]:
  "path (Item r p s t) = p"
  "level (Item r p s t) = int (count_list p sep) - int (count_list r sep) - 1"
  "name (Item r p s t) = last (split p sep)"
  "size' (Item r p s t) = str_size s"
  "time (Item r p s t) = str_time t"
  by (simp_all add: Item_def)

lemma zip_induct [case_names Nil Cons]:
  assumes nil: "P []"
    and cons: "\<And>fname fsize dt data zipf.
      (\<And>nz. data = ZipFile nz \<Longrightarrow> P nz) \<Longrightarrow> P zipf \<Longrightarrow>
      P (ZipInfo fname fsize dt data # zipf)"
  shows "P zf"
proof -
  have "(\<forall>nz. content r = ZipFile nz \<longrightarrow> P nz)" and "(\<forall>nz. c = ZipFile nz \<longrightarrow> P nz)"
    for r :: zrecord and c :: zcontent
  proof (induction r and c)
    case (ZipInfo fname fsize dt data)
    then show ?case by simp
  next
    case (Raises e)
    then show ?case by simp
  next
    case (ZipFile xs)
    have "P xs" using ZipFile
    proof (induction xs)
      case Nil
      show ?case by (rule nil)
    next
      case (Cons x xs)
      obtain fname fsize dt data where x: "x = ZipInfo fname fsize dt data" by (cases x)
      have "P xs" by (rule Cons.IH) (rule Cons.prems, simp)
      moreover have "\<And>nz. data = ZipFile nz \<Longrightarrow> P nz" using Cons.prems[of x] x by simp
      ultimately show ?case unfolding x by (rule cons[rotated])
    qed
    then show ?case by simp
  qed
  then have nested: "\<And>r nz. content r = ZipFile nz \<Longrightarrow> P nz" by blast
  show ?thesis
  proof (induction zf)
    case Nil
    show ?case by (rule nil)
  next
    case (Cons x xs)
    obtain fname fsize dt data where x: "x = ZipInfo fname fsize dt data" by (cases x)
    have "\<And>nz. data = ZipFile nz \<Longrightarrow> P nz" using nested[of x] x by simp
    then show ?case unfolding x using Cons by (rule cons)
  qed
qed

lemma analyze_zip_Cons:
  "analyze_zip rt (ZipInfo fname fsize dt data # zipf) zr =
     (if lower (suffix (joinpath zr fname)) = ''.zip'' then
        (case data of
           Raises e \<Rightarrow> Inl e
         | ZipFile nz \<Rightarrow>
             (case analyze_zip rt nz (joinpath zr fname) of
                Inl e \<Rightarrow> Inl e
              | Inr nested \<Rightarrow>
                  (case analyze_zip rt zipf zr of
                     Inl e \<Rightarrow> Inl e
                   | Inr items \<Rightarrow>
                       Inr (nested @ Item (str rt) (str (joinpath zr fname)) (Token ''ZIP'')
                                       (TimeTuple dt) # items))))
      else
        (case analyze_zip rt zipf zr of
           Inl e \<Rightarrow> Inl e
         | Inr items \<Rightarrow>
             Inr (Item (str rt) (str (joinpath zr fname))
                    (if endswith fname ''/'' then Token ''FOLDER'' else Size fsize)
                    (TimeTuple dt) # items)))"
  by (simp add: Let_def)

declare analyze_zip.simps(2) [simp del]

lemma analyze_zip_Cons_Inr:
  assumes "analyze_zip rt (ZipInfo fname fsize dt data # zipf) zr = Inr items"
  obtains (zip) nz nested rest where
      "lower (suffix (joinpath zr fname)) = ''.zip''" "data = ZipFile nz"
      "analyze_zip rt nz (joinpath zr fname) = Inr nested"
      "analyze_zip rt zipf zr = Inr rest"
      "items = nested @ Item (str rt) (str (joinpath zr fname)) (Token ''ZIP'') (TimeTuple dt) # rest"
    | (plain) rest where
      "lower (suffix (joinpath zr fname)) \<noteq> ''.zip''"
      "analyze_zip rt zipf zr = Inr rest"
      "items = Item (str rt) (str (joinpath zr fname))
                 (if endswith fname ''/'' then Token ''FOLDER'' else Size fsize) (TimeTuple dt) # rest"
proof (cases "lower (suffix (joinpath zr fname)) = ''.zip''")
  case True
  note z = this
  show ?thesis
  proof (cases data)
    case (Raises e)
    with assms z show ?thesis by (simp add: analyze_zip_Cons)
  next
    case (ZipFile nz)
    note d = this
    show ?thesis
    proof (cases "analyze_zip rt nz (joinpath zr fname)")
      case (Inl e)
      with assms z d show ?thesis by (simp add: analyze_zip_Cons)
    next
      case (Inr nested)
      note n = this
      show ?thesis
      proof (cases "analyze_zip rt zipf zr")
        case (Inl e)
        with assms z d n show ?thesis by (simp add: analyze_zip_Cons)
      next
        case (Inr rest)
        with assms z d n have "items = nested @ Item (str rt) (str (joinpath zr fname))
            (Token ''ZIP'') (TimeTuple dt) # rest"
          by (simp add: analyze_zip_Cons)
        with z d n Inr show ?thesis by (rule zip)
      qed
    qed
  qed
next
  case False
  note z = this
  show ?thesis
  proof (cases "analyze_zip rt zipf zr")
    case (Inl e)
    with assms z show ?thesis by (simp add: analyze_zip_Cons)
  next
    case (Inr rest)
    with assms z have "items = Item (str rt) (str (joinpath zr fname))
        (if endswith fname ''/'' then Token ''FOLDER'' else Size fsize) (TimeTuple dt) # rest"
      by (simp add: analyze_zip_Cons)
    with z Inr show ?thesis by (rule plain)
  qed
qed

lemma analyze_zip_items:
  "analyze_zip rt zf zr = Inr items \<Longrightarrow> i \<in> set items \<Longrightarrow>
   \<exists>p s t. i = Item (str rt) (str p) s (TimeTuple t)"
proof (induction zf arbitrary: zr items rule: zip_induct)
  case Nil
  then show ?case by simp
next
  case (Cons fname fsize dt data zipf)
  from Cons.prems(1) show ?case
  proof (cases rule: analyze_zip_Cons_Inr)
    case (zip nz nested rest)
    with Cons.prems(2) consider "i \<in> set nested"
      | "i = Item (str rt) (str (joinpath zr fname)) (Token ''ZIP'') (TimeTuple dt)"
      | "i \<in> set rest" by auto
    then show ?thesis
    proof cases
      case 1
      with Cons.IH(1)[OF zip(2) zip(3)] show ?thesis .
    next
      case 2
      then show ?thesis by blast
    next
      case 3
      with Cons.IH(2)[OF zip(4)] show ?thesis .
    qed
  next
    case (plain rest)
    with Cons.prems(2) consider
        "i = Item (str rt) (str (joinpath zr fname))
               (if endswith fname ''/'' then Token ''FOLDER'' else Size fsize) (TimeTuple dt)"
      | "i \<in> set rest" by auto
    then show ?thesis
    proof cases
      case 1
      then show ?thesis by blast
    next
      case 2
      with Cons.IH(2)[OF plain(2)] show ?thesis .
    qed
  qed
qed

lemma analyze_zip_append:
  "analyze_zip rt (xs @ ys) zr =
     (case analyze_zip rt xs zr of Inl e \<Rightarrow> Inl e
      | Inr a \<Rightarrow> (case analyze_zip rt ys zr of Inl e \<Rightarrow> Inl e | Inr b \<Rightarrow> Inr (a @ b)))"
proof (induction xs)
  case Nil
  show ?case by (cases "analyze_zip rt ys zr") simp_all
next
  case (Cons r xs)
  obtain fname fsize dt data where r: "r = ZipInfo fname fsize dt data" by (cases r)
  show ?case
  proof (cases data)
    case (Raises e)
    with r Cons show ?thesis
      by (cases "analyze_zip rt xs zr"; cases "analyze_zip rt ys zr")
         (simp_all add: analyze_zip_Cons)
  next
    case (ZipFile nz)
    with r Cons show ?thesis
      by (cases "analyze_zip rt nz (joinpath zr fname)"; cases "analyze_zip rt xs zr";
          cases "analyze_zip rt ys zr")
         (simp_all add: analyze_zip_Cons)
  qed
qed

lemma analyze_folder_loop_Cons:
  "analyze_folder_loop rt (e # es) =
     (if is_symlink e then analyze_folder_loop rt es
      else
        (case stat e of
           None \<Rightarrow> Inl OSError
         | Some st \<Rightarrow>
             (if lower (suffix (d_path e)) = ''.zip'' then
                (case zipfile_open e of
                   Raises err \<Rightarrow> Inl err
                 | ZipFile zipf \<Rightarrow>
                     (case analyze_zip rt zipf (d_path e) of
                        Inl err \<Rightarrow> Inl err
                      | Inr nested \<Rightarrow>
                          (case analyze_folder_loop rt es of
                             Inl err \<Rightarrow> Inl err
                           | Inr items \<Rightarrow>
                               Inr (nested @
                                    Item (str rt) (str (d_path e)) (Token ''ZIP'')
                                      (TimeStr (isoformat (snd st))) # items))))
              else
                (case analyze_folder_loop rt es of
                   Inl err \<Rightarrow> Inl err
                 | Inr items \<Rightarrow>
                     Inr (Item (str rt) (str (d_path e))
                            (if is_dir e then Token ''FOLDER'' else Size (fst st))
                            (TimeStr (isoformat (snd st))) # items)))))"
  by (cases "stat e") (simp_all add: Let_def split_beta)

declare analyze_folder_loop.simps(2) [simp del]

lemma analyze_folder_loop_Cons_Inr:
  assumes "analyze_folder_loop rt (e # es) = Inr items"
  obtains (link) "is_symlink e" "analyze_folder_loop rt es = Inr items"
    | (zip) st zipf nested rest where
      "\<not> is_symlink e" "stat e = Some st"
      "lower (suffix (d_path e)) = ''.zip''" "zipfile_open e = ZipFile zipf"
      "analyze_zip rt zipf (d_path e) = Inr nested"
      "analyze_folder_loop rt es = Inr rest"
      "items = nested @ Item (str rt) (str (d_path e)) (Token ''ZIP'')
                         (TimeStr (isoformat (snd st))) # rest"
    | (plain) st rest where
      "\<not> is_symlink e" "stat e = Some st"
      "lower (suffix (d_path e)) \<noteq> ''.zip''"
      "analyze_folder_loop rt es = Inr rest"
      "items = Item (str rt) (str (d_path e))
                 (if is_dir e then Token ''FOLDER'' else Size (fst st))
                 (TimeStr (isoformat (snd st))) # rest"
proof (cases "is_symlink e")
  case True
  with assms show ?thesis by (intro link) (simp_all add: analyze_folder_loop_Cons)
next
  case False
  note l = this
  show ?thesis
  proof (cases "stat e")
    case None
    with assms l show ?thesis by (simp add: analyze_folder_loop_Cons)
  next
    case (Some st)
    note s = this
    show ?thesis
    proof (cases "lower (suffix (d_path e)) = ''.zip''")
      case True
      note z = this
      show ?thesis
      proof (cases "zipfile_open e")
        case (Raises err)
        with assms l s z show ?thesis by (simp add: analyze_folder_loop_Cons)
      next
        case (ZipFile zipf)
        note d = this
        show ?thesis
        proof (cases "analyze_zip rt zipf (d_path e)")
          case (Inl err)
          with assms l s z d show ?thesis by (simp add: analyze_folder_loop_Cons)
        next
          case (Inr nested)
          note n = this
          show ?thesis
          proof (cases "analyze_folder_loop rt es")
            case (Inl err)
            with assms l s z d n show ?thesis by (simp add: analyze_folder_loop_Cons)
          next
            case (Inr rest)
            with assms l s z d n have "items = nested @ Item (str rt) (str (d_path e))
                (Token ''ZIP'') (TimeStr (isoformat (snd st))) # rest"
              by (simp add: analyze_folder_loop_Cons)
            with l s z d n Inr show ?thesis by (rule zip)
          qed
        qed
      qed
    next
      case False
      note z = this
      show ?thesis
      proof (cases "analyze_folder_loop rt es")
        case (Inl err)
        with assms l s z show ?thesis by (simp add: analyze_folder_loop_Cons)
      next
        case (Inr rest)
        with assms l s z have "items = Item (str rt) (str (d_path e))
            (if is_dir e then Token ''FOLDER'' else Size (fst st))
            (TimeStr (isoformat (snd st))) # rest"
          by (simp add: analyze_folder_loop_Cons)
        with l s z Inr show ?thesis by (rule plain)
      qed
    qed
  qed
qed

lemma folder_loop_append:
  "analyze_folder_loop rt (xs @ ys) =
     (case analyze_folder_loop rt xs of Inl e \<Rightarrow> Inl e
      | Inr a \<Rightarrow> (case analyze_folder_loop rt ys of Inl e \<Rightarrow> Inl e | Inr b \<Rightarrow> Inr (a @ b)))"
proof (induction xs)
  case Nil
  show ?case by (cases "analyze_folder_loop rt ys") simp_all
next
  case (Cons e xs)
  show ?case
  proof (cases "zipfile_open e")
    case (Raises err)
    with Cons show ?thesis
      by (cases "stat e"; cases "analyze_folder_loop rt xs"; cases "analyze_folder_loop rt ys")
         (simp_all add: analyze_folder_loop_Cons)
  next
    case (ZipFile zipf)
    with Cons show ?thesis
      by (cases "stat e"; cases "analyze_zip rt zipf (d_path e)";
          cases "analyze_folder_loop rt xs"; cases "analyze_folder_loop rt ys")
         (simp_all add: analyze_folder_loop_Cons)
  qed
qed

lemma folder_loop_filter:
  "analyze_folder_loop rt (filter (\<lambda>e. \<not> is_symlink e) es) = analyze_folder_loop rt es"
proof (induction es)
  case Nil
  show ?case by simp
next
  case (Cons e es)
  show ?case
  proof (cases "is_symlink e")
    case True
    with Cons show ?thesis by (simp add: analyze_folder_loop_Cons)
  next
    case False
    then have "filter (\<lambda>e. \<not> is_symlink e) (e # es) = e # filter (\<lambda>e. \<not> is_symlink e) es"
      by simp
    with Cons show ?thesis by (simp only: analyze_folder_loop_Cons)
  qed
qed

lemma folder_loop_items:
  "analyze_folder_loop rt es = Inr items \<Longrightarrow> i \<in> set items \<Longrightarrow>
   (\<exists>p s t. i = Item (str rt) (str p) s (TimeTuple t)) \<or>
   (\<exists>e s. e \<in> set es \<and> \<not> is_symlink e \<and> stat e \<noteq> None \<and>
      i = Item (str rt) (str (d_path e)) s (TimeStr (isoformat (snd (the (stat e))))))"
proof (induction es arbitrary: items)
  case Nil
  then show ?case by simp
next
  case (Cons e es)
  let ?fs = "\<lambda>xs. \<exists>e s. e \<in> set xs \<and> \<not> is_symlink e \<and> stat e \<noteq> None \<and>
      i = Item (str rt) (str (d_path e)) s (TimeStr (isoformat (snd (the (stat e)))))"
  have weaken: "?fs (e # es)" if "?fs es"
  proof -
    from that obtain e' s where "e' \<in> set es" "\<not> is_symlink e'" "stat e' \<noteq> None"
      "i = Item (str rt) (str (d_path e')) s (TimeStr (isoformat (snd (the (stat e')))))"
      by blast
    moreover from this have "e' \<in> set (e # es)" by simp
    ultimately show ?thesis by blast
  qed
  have here: "?fs (e # es)"
    if "\<not> is_symlink e" "stat e = Some st"
       "i = Item (str rt) (str (d_path e)) s (TimeStr (isoformat (snd st)))" for s st
  proof -
    have "e \<in> set (e # es)" by simp
    moreover have "stat e \<noteq> None" using that by simp
    moreover have "i = Item (str rt) (str (d_path e)) s (TimeStr (isoformat (snd (the (stat e)))))"
      using that by simp
    ultimately show ?thesis using that(1) by blast
  qed
  from Cons.prems(1) show ?case
  proof (cases rule: analyze_folder_loop_Cons_Inr)
    case link
    from Cons.IH[OF link(2) Cons.prems(2)] weaken show ?thesis by blast
  next
    case (zip st zipf nested rest)
    with Cons.prems(2) consider "i \<in> set nested"
      | "i = Item (str rt) (str (d_path e)) (Token ''ZIP'') (TimeStr (isoformat (snd st)))"
      | "i \<in> set rest" by auto
    then show ?thesis
    proof cases
      case 1
      from analyze_zip_items[OF zip(5) this] show ?thesis by blast
    next
      case 2
      from here[OF zip(1) zip(2) this] show ?thesis by blast
    next
      case 3
      from Cons.IH[OF zip(6) this] weaken show ?thesis by blast
    qed
  next
    case (plain st rest)
    with Cons.prems(2) consider
        "i = Item (str rt) (str (d_path e))
               (if is_dir e then Token ''FOLDER'' else Size (fst st))
               (TimeStr (isoformat (snd st)))"
      | "i \<in> set rest" by auto
    then show ?thesis
    proof cases
      case 1
      from here[OF plain(1) plain(2) this] show ?thesis by blast
    next
      case 2
      from Cons.IH[OF plain(4) this] weaken show ?thesis by blast
    qed
  qed
qed

lemma is_symlink_dirent_of:
  "is_symlink (dirent_of p c) = (case c of FsLink t \<Rightarrow> True | _ \<Rightarrow> False)"
  by (induction p c rule: dirent_of.induct) simp_all

lemma dirent_of_without_links:
  "map (\<lambda>(m, c). dirent_of (f m) c) (without_links cs) =
   filter (\<lambda>e. \<not> is_symlink e) (map (\<lambda>(m, c). dirent_of (f m) c) cs)"
  by (induction cs rule: without_links.induct) (simp_all add: is_symlink_dirent_of)

lemma rglob_below_without_links:
  "rglob_below p (without_links cs) = filter (\<lambda>e. \<not> is_symlink e) (rglob_below p cs)"
  by (induction p cs rule: rglob_below.induct) (simp_all add: dirent_of_without_links)

lemma rglob_without_links:
  "rglob p (without_links cs) = filter (\<lambda>e. \<not> is_symlink e) (rglob p cs)"
  by (simp add: rglob_def dirent_of_without_links rglob_below_without_links)

section \<open>Symbolic links\<close>

text \<open>
  Claim C5. A symbolic link yields no entry and is not followed: the scan of a listing is
  the scan of the listing without its symbolic links, whatever the file system answers
  about them, and the scan of a tree is the scan of the tree with every link, and all
  that is reachable only through it, cut off.
\<close>

theorem symlinks_skipped:
  "analyze_folder rt es = analyze_folder rt (filter (\<lambda>e. \<not> is_symlink e) es) \<and>
   analyze_folder rt (rglob rt cs) = analyze_folder rt (rglob rt (without_links cs))"
  by (simp add: analyze_folder_def rglob_without_links folder_loop_filter)


section \<open>Evaluation\<close>

lemma lower_char_ascii:
  "lower_char (CHR '' '') = CHR '' ''"
  "lower_char (CHR ''!'') = CHR ''!''"
  "lower_char (CHR 0x22) = CHR 0x22"
  "lower_char (CHR ''#'') = CHR ''#''"
  "lower_char (CHR ''$'') = CHR ''$''"
  "lower_char (CHR ''%'') = CHR ''%''"
  "lower_char (CHR ''&'') = CHR ''&''"
  "lower_char (CHR 0x27) = CHR 0x27"
  "lower_char (CHR ''('') = CHR ''(''"
  "lower_char (CHR '')'') = CHR '')''"
  "lower_char (CHR ''*'') = CHR ''*''"
  "lower_char (CHR ''+'') = CHR ''+''"
  "lower_char (CHR '','') = CHR '',''"
  "lower_char (CHR ''-'') = CHR ''-''"
  "lower_char (CHR ''.'') = CHR ''.''"
  "lower_char (CHR ''/'') = CHR ''/''"
  "lower_char (CHR ''0'') = CHR ''0''"
  "lower_char (CHR ''1'') = CHR ''1''"
  "lower_char (CHR ''2'') = CHR ''2''"
  "lower_char (CHR ''3'') = CHR ''3''"
  "lower_char (CHR ''4'') = CHR ''4''"
  "lower_char (CHR ''5'') = CHR ''5''"
  "lower_char (CHR ''6'') = CHR ''6''"
  "lower_char (CHR ''7'') = CHR ''7''"
  "lower_char (CHR ''8'') = CHR ''8''"
  "lower_char (CHR ''9'') = CHR ''9''"
  "lower_char (CHR '':'') = CHR '':''"
  "lower_char (CHR '';'') = CHR '';''"
  "lower_char (CHR ''<'') = CHR ''<''"
  "lower_char (CHR ''='') = CHR ''=''"
  "lower_char (CHR ''>'') = CHR ''>''"
  "lower_char (CHR ''?'') = CHR ''?''"
  "lower_char (CHR ''@'') = CHR ''@''"
  "lower_char (CHR ''A'') = CHR ''a''"
  "lower_char (CHR ''B'') = CHR ''b''"
  "lower_char (CHR ''C'') = CHR ''c''"
  "lower_char (CHR ''D'') = CHR ''d''"
  "lower_char (CHR ''E'') = CHR ''e''"
  "lower_char (CHR ''F'') = CHR ''f''"
  "lower_char (CHR ''G'') = CHR ''g''"
  "lower_char (CHR ''H'') = CHR ''h''"
  "lower_char (CHR ''I'') = CHR ''i''"
  "lower_char (CHR ''J'') = CHR ''j''"
  "lower_char (CHR ''K'') = CHR ''k''"
  "lower_char (CHR ''L'') = CHR ''l''"
  "lower_char (CHR ''M'') = CHR ''m''"
  "lower_char (CHR ''N'') = CHR ''n''"
  "lower_char (CHR ''O'') = CHR ''o''"
  "lower_char (CHR ''P'') = CHR ''p''"
  "lower_char (CHR ''Q'') = CHR ''q''"
  "lower_char (CHR ''R'') = CHR ''r''"
  "lower_char (CHR ''S'') = CHR ''s''"
  "lower_char (CHR ''T'') = CHR ''t''"
  "lower_char (CHR ''U'') = CHR ''u''"
  "lower_char (CHR ''V'') = CHR ''v''"
  "lower_char (CHR ''W'') = CHR ''w''"
  "lower_char (CHR ''X'') = CHR ''x''"
  "lower_char (CHR ''Y'') = CHR ''y''"
  "lower_char (CHR ''Z'') = CHR ''z''"
  "lower_char (CHR ''['') = CHR ''[''"
  "lower_char (CHR 0x5C) = CHR 0x5C"
  "lower_char (CHR '']'') = CHR '']''"
  "lower_char (CHR ''^'') = CHR ''^''"
  "lower_char (CHR ''_'') = CHR ''_''"
  "lower_char (CHR 0x60) = CHR 0x60"
  "lower_char (CHR ''a'') = CHR ''a''"
  "lower_char (CHR ''b'') = CHR ''b''"
  "lower_char (CHR ''c'') = CHR ''c''"
  "lower_char (CHR ''d'') = CHR ''d''"
  "lower_char (CHR ''e'') = CHR ''e''"
  "lower_char (CHR ''f'') = CHR ''f''"
  "lower_char (CHR ''g'') = CHR ''g''"
  "lower_char (CHR ''h'') = CHR ''h''"
  "lower_char (CHR ''i'') = CHR ''i''"
  "lower_char (CHR ''j'') = CHR ''j''"
  "lower_char (CHR ''k'') = CHR ''k''"
  "lower_char (CHR ''l'') = CHR ''l''"
  "lower_char (CHR ''m'') = CHR ''m''"
  "lower_char (CHR ''n'') = CHR ''n''"
  "lower_char (CHR ''o'') = CHR ''o''"
  "lower_char (CHR ''p'') = CHR ''p''"
  "lower_char (CHR ''q'') = CHR ''q''"
  "lower_char (CHR ''r'') = CHR ''r''"
  "lower_char (CHR ''s'') = CHR ''s''"
  "lower_char (CHR ''t'') = CHR ''t''"
  "lower_char (CHR ''u'') = CHR ''u''"
  "lower_char (CHR ''v'') = CHR ''v''"
  "lower_char (CHR ''w'') = CHR ''w''"
  "lower_char (CHR ''x'') = CHR ''x''"
  "lower_char (CHR ''y'') = CHR ''y''"
  "lower_char (CHR ''z'') = CHR ''z''"
  "lower_char (CHR ''{'') = CHR ''{''"
  "lower_char (CHR ''|'') = CHR ''|''"
  "lower_char (CHR ''}'') = CHR ''}''"
  "lower_char (CHR ''~'') = CHR ''~''"
  by code_simp+

lemma Path_examples:
  "Path ''C:/root'' = \<lparr>drv = ''C:'', root = [sep], parts = [''C:'' @ [sep], ''root'']\<rparr>"
  "Path ''C:/work'' = \<lparr>drv = ''C:'', root = [sep], parts = [''C:'' @ [sep], ''work'']\<rparr>"
  "Path ''C:/'' = \<lparr>drv = ''C:'', root = [sep], parts = [''C:'' @ [sep]]\<rparr>"
  "Path ''.'' = \<lparr>drv = [], root = [], parts = []\<rparr>"
  "Path ''a.txt'' = \<lparr>drv = [], root = [], parts = [''a.txt'']\<rparr>"
  "Path ''report.txt'' = \<lparr>drv = [], root = [], parts = [''report.txt'']\<rparr>"
  "Path ''C:/root/outer.zip'' =
     \<lparr>drv = ''C:'', root = [sep], parts = [''C:'' @ [sep], ''root'', ''outer.zip'']\<rparr>"
  "Path ''C:/root/z.txt'' =
     \<lparr>drv = ''C:'', root = [sep], parts = [''C:'' @ [sep], ''root'', ''z.txt'']\<rparr>"
  "Path ''C:/root/a.zip'' =
     \<lparr>drv = ''C:'', root = [sep], parts = [''C:'' @ [sep], ''root'', ''a.zip'']\<rparr>"
  "Path ''C:/root/d.zip'' =
     \<lparr>drv = ''C:'', root = [sep], parts = [''C:'' @ [sep], ''root'', ''d.zip'']\<rparr>"
  by code_simp+

lemma Path_names:
  "Path ''inner.zip'' = \<lparr>drv = [], root = [], parts = [''inner.zip'']\<rparr>"
  "Path ''leaf.txt'' = \<lparr>drv = [], root = [], parts = [''leaf.txt'']\<rparr>"
  "Path ''readme.txt'' = \<lparr>drv = [], root = [], parts = [''readme.txt'']\<rparr>"
  "Path ''d.zip/'' = \<lparr>drv = [], root = [], parts = [''d.zip'']\<rparr>"
  "Path ''d/'' = \<lparr>drv = [], root = [], parts = [''d'']\<rparr>"
  "Path ''x.txt'' = \<lparr>drv = [], root = [], parts = [''x.txt'']\<rparr>"
  by code_simp+

lemma isoformat_mtime0: "isoformat mtime0 = ''2024-03-09T07:05:01''"
  by (simp add: isoformat_def mtime0_def zero_pad_def str_nat.simps digit_def)

lemma str_date_time_stamp0: "str_date_time stamp0 = ''(2024, 3, 9, 7, 5, 0)''"
  by (simp add: str_date_time_def stamp0_def str_nat.simps digit_def)

lemmas eval =
  Path_examples Path_names isoformat_mtime0 str_date_time_stamp0 lower_char_ascii
  folder_def plain_file_def zip_file_def rglob_def make_child_relpath_def
  analyze_folder_def analyze_folder_loop_Cons analyze_zip_Cons zipfile_open_def
  joinpath_def join_parsed_parts_def suffix_def pname_def str_rfind_def lower_def str_def
  sep_def endswith_def Item_def str_nat.simps digit_def

text \<open>In \<open>C:\root\<close> holding \<open>tree_links\<close> only \<open>real.txt\<close> is reported.\<close>

theorem symlinks_skipped_witness:
  "analyze_folder (Path ''C:/root'') (rglob (Path ''C:/root'') tree_links) =
     analyze_folder (Path ''C:/root'') (rglob (Path ''C:/root'') (without_links tree_links)) \<and>
   without_links tree_links = [(''real.txt'', plain_file 1)] \<and>
   map name (projr (analyze_folder (Path ''C:/root'') (rglob (Path ''C:/root'') tree_links))) =
     [''real.txt'']"
proof -
  let ?rt = "Path ''C:/root''"
  have a: "analyze_folder ?rt (rglob ?rt tree_links) =
      analyze_folder ?rt (rglob ?rt (without_links tree_links))"
    by (rule symlinks_skipped [THEN conjunct2])
  have w: "without_links tree_links = [(''real.txt'', plain_file 1)]"
    by (simp add: tree_links_def plain_file_def)
  have "map name (projr (analyze_folder ?rt (rglob ?rt [(''real.txt'', plain_file 1)]))) =
      [''real.txt'']"
    by (simp add: eval)
  then have n: "map name (projr (analyze_folder ?rt (rglob ?rt tree_links))) = [''real.txt'']"
    by (simp only: a w)
  from a w n show ?thesis by iprover
qed

section \<open>Levels\<close>

text \<open>
  What the constructor computes for every entry of a scan: the number of backslashes in
  the entry's path string, as the walker holds it, minus the number of backslashes in the
  string of the root as it was given, minus one. The paths are not made absolute.
\<close>

lemma level_from_path_strings:
  assumes "analyze_folder rt es = Inr items" and "i \<in> set items"
  shows "level i = int (count_list (path i) sep) - int (count_list (str rt) sep) - 1"
proof -
  from assms(1) obtain raw where raw: "analyze_folder_loop rt es = Inr raw"
    and "items = sort_key (\<lambda>x. lower (path x)) raw"
    by (cases "analyze_folder_loop rt es") (simp_all add: analyze_folder_def)
  with assms(2) have "i \<in> set raw" by simp
  from folder_loop_items[OF raw this] obtain p s t where "i = Item (str rt) p s t"
    by blast
  then show ?thesis by simp
qed

text \<open>For the absolute root \<open>C:\root\<close> holding \<open>a\b\file.txt\<close> the levels of \<open>a\<close>,
  \<open>b\<close> and \<open>file.txt\<close> are 0, 1 and 2, and the absolute paths give the same.\<close>

lemma levels_at_absolute_root:
  "analyze_folder (Path ''C:/root'') (rglob (Path ''C:/root'') tree_abfile) = Inr items_abfile \<and>
   map name items_abfile = [''a'', ''b'', ''file.txt''] \<and>
   level (items_abfile ! 0) = 0 \<and> level (items_abfile ! 1) = 1 \<and> level (items_abfile ! 2) = 2"
proof -
  let ?rt = "Path ''C:/root''"
  have e: "analyze_folder ?rt (rglob ?rt tree_abfile) = Inr items_abfile"
    by (simp add: tree_abfile_def items_abfile_def eval)
  have m: "items_abfile ! 0 \<in> set items_abfile" "items_abfile ! 1 \<in> set items_abfile"
    "items_abfile ! 2 \<in> set items_abfile"
    by (simp_all add: items_abfile_def)
  have "level (items_abfile ! 0) =
      int (count_list (path (items_abfile ! 0)) sep) - int (count_list (str ?rt) sep) - 1"
    by (rule level_from_path_strings [OF e m(1)])
  also have "\<dots> = 0" by (simp add: items_abfile_def eval)
  finally have l0: "level (items_abfile ! 0) = 0" .
  have "level (items_abfile ! 1) =
      int (count_list (path (items_abfile ! 1)) sep) - int (count_list (str ?rt) sep) - 1"
    by (rule level_from_path_strings [OF e m(2)])
  also have "\<dots> = 1" by (simp add: items_abfile_def eval)
  finally have l1: "level (items_abfile ! 1) = 1" .
  have "level (items_abfile ! 2) =
      int (count_list (path (items_abfile ! 2)) sep) - int (count_list (str ?rt) sep) - 1"
    by (rule level_from_path_strings [OF e m(3)])
  also have "\<dots> = 2" by (simp add: items_abfile_def eval)
  finally have l2: "level (items_abfile ! 2) = 2" .
  have n: "map name items_abfile = [''a'', ''b'', ''file.txt'']"
    by (simp add: items_abfile_def eval)
  from e n l0 l1 l2 show ?thesis by blast
qed

lemma spec_levels_at_absolute_root:
  "spec_level (Path ''C:/work'') (''C:'' @ [sep] @ ''root'') (path (items_abfile ! 0)) = 0"
  "spec_level (Path ''C:/work'') (''C:'' @ [sep] @ ''root'') (path (items_abfile ! 1)) = 1"
  "spec_level (Path ''C:/work'') (''C:'' @ [sep] @ ''root'') (path (items_abfile ! 2)) = 2"
  by code_simp+

text \<open>
  Claim C1 fails on the code for the root \<open>.\<close>. With the current directory \<open>C:\work\<close>
  the absolute paths of \<open>a.txt\<close> and of the root hold two backslashes and one, which
  gives the level 0; the walker counts in the strings \<open>a.txt\<close> and \<open>.\<close>, which hold none,
  and gives the level \<open>-1\<close>.
\<close>

theorem level_at_dot_root:
  "analyze_folder (Path ''.'') (rglob (Path ''.'') tree_a) = Inr [item_a] \<and>
   level item_a = - 1 \<and>
   spec_level (Path ''C:/work'') (str (Path ''.'')) (path item_a) = 0"
  by (simp add: tree_a_def item_a_def spec_level_def absolute_def is_absolute_def eval)

theorem level_at_dot_root_witness:
  "level item_a \<noteq> spec_level (Path ''C:/work'') (str (Path ''.'')) (path item_a)"
proof -
  from level_at_dot_root have "level item_a = - 1"
    by (rule conjunct2 [THEN conjunct1])
  moreover from level_at_dot_root
  have "spec_level (Path ''C:/work'') (str (Path ''.'')) (path item_a) = 0"
    by (rule conjunct2 [THEN conjunct2])
  ultimately show ?thesis by simp
qed

section \<open>The final order\<close>

text \<open>
  Claim C2, as amended. The sequence that \<open>analyze_folder\<close> returns is sorted by the
  lower-cased \<open>path\<close>, compared as strings; so for a root holding \<open>Z.txt\<close> and \<open>a.txt\<close>
  the entry of \<open>a.txt\<close> comes before the entry of \<open>Z.txt\<close>.
\<close>

theorem sorted_by_lower_path:
  assumes "analyze_folder rt es = Inr items"
  shows "sorted (map (\<lambda>x. lower (path x)) items)"
proof -
  from assms obtain raw where "items = sort_key (\<lambda>x. lower (path x)) raw"
    by (cases "analyze_folder_loop rt es") (auto simp: analyze_folder_def)
  then show ?thesis by (simp only: sorted_sort_key)
qed

theorem sorted_by_lower_path_witness:
  "analyze_folder (Path ''C:/root'') (rglob (Path ''C:/root'') tree_Za) = Inr items_Za \<and>
   map name items_Za = [''a.txt'', ''Z.txt''] \<and>
   sorted (map (\<lambda>x. lower (path x)) items_Za)"
proof -
  have e: "analyze_folder (Path ''C:/root'') (rglob (Path ''C:/root'') tree_Za) = Inr items_Za"
    by (simp add: tree_Za_def items_Za_def eval)
  have s: "sorted (map (\<lambda>x. lower (path x)) items_Za)"
    by (rule sorted_by_lower_path [OF e])
  have n: "map name items_Za = [''a.txt'', ''Z.txt'']"
    by (simp add: items_Za_def eval)
  from e n s show ?thesis by blast
qed

text \<open>Claim C2 as stated has \<open>Z.txt\<close> before \<open>a.txt\<close>; the scan returns \<open>a.txt\<close> first.\<close>

theorem Z_before_a_counterexample:
  "map name (projr (analyze_folder (Path ''C:/root'') (rglob (Path ''C:/root'') tree_Za))) =
     [''a.txt'', ''Z.txt'']"
  by (simp add: tree_Za_def eval)

section \<open>Negative levels\<close>

text \<open>
  Claim C6 fails on the code. For the root \<open>.\<close> and for the root of a drive a child's path
  string has as many backslashes as the root's, so the entries directly inside the root
  get the level \<open>-1\<close>: for \<open>a\b\file.txt\<close> the levels are \<open>-1\<close>, 0 and 1.
\<close>

theorem level_negative_inside_root:
  "map level (projr (analyze_folder (Path ''.'') (rglob (Path ''.'') tree_abfile))) = [- 1, 0, 1] \<and>
   map level (projr (analyze_folder (Path ''C:/'') (rglob (Path ''C:/'') tree_abfile))) =
     [- 1, 0, 1]"
  by (simp add: tree_abfile_def eval)

text \<open>The first of these levels, that of the folder \<open>a\<close> directly inside the root \<open>.\<close>.\<close>

theorem level_negative_inside_root_witness:
  "map level (projr (analyze_folder (Path ''.'') (rglob (Path ''.'') tree_abfile))) ! 0 = - 1"
proof -
  from level_negative_inside_root
  have "map level (projr (analyze_folder (Path ''.'') (rglob (Path ''.'') tree_abfile))) =
      [- 1, 0, 1]"
    by (rule conjunct1)
  then show ?thesis by (simp only: nth_Cons_0)
qed

section \<open>The report format\<close>

text \<open>
  Claim C7, as amended. When the lower-cased extension of the report path is none of
  \<open>.docx\<close>, \<open>.xlsx\<close>, \<open>.pdf\<close>, \<open>.csv\<close> and \<open>.json\<close>, no writer is called. What the run
  reports depends on what comes first: the message about the folder when the folder is
  not a directory; else, the scan being done before the extension is looked at, the
  exception of the scan when the scan raises one, with no message of the program; else
  the message about the format.
\<close>

theorem unsupported_format_writes_nothing:
  assumes "lower (suffix (Path args_report)) \<notin> {''.docx'', ''.xlsx'', ''.pdf'', ''.csv'', ''.json''}"
  shows "(\<forall>w f r d. main args_path args_report folder_ok es \<noteq> Written w f r d) \<and>
         (\<not> folder_ok \<longrightarrow> main args_path args_report folder_ok es = Error_folder) \<and>
         (folder_ok \<longrightarrow>
            (\<forall>err. analyze_folder (Path args_path) es = Inl err \<longrightarrow>
               main args_path args_report folder_ok es = Exception err) \<and>
            (\<forall>data. analyze_folder (Path args_path) es = Inr data \<longrightarrow>
               main args_path args_report folder_ok es =
                 Error_format (lower (suffix (Path args_report)))))"
proof (cases "analyze_folder (Path args_path) es")
  case (Inl err)
  then show ?thesis by (simp add: main_def Let_def)
next
  case (Inr data)
  with assms show ?thesis by (simp add: main_def Let_def)
qed

theorem unsupported_format_writes_nothing_witness:
  "lower (suffix (Path ''report.txt'')) \<notin> {''.docx'', ''.xlsx'', ''.pdf'', ''.csv'', ''.json''} \<and>
   analyze_folder (Path ''C:/root'') (rglob (Path ''C:/root'') tree_Za) = Inr items_Za \<and>
   main ''C:/root'' ''report.txt'' True (rglob (Path ''C:/root'') tree_Za) = Error_format ''.txt'' \<and>
   main ''C:/root'' ''report.txt'' False (rglob (Path ''C:/root'') tree_Za) = Error_folder \<and>
   main ''C:/root'' ''report.txt'' True (rglob (Path ''C:/root'') tree_Za) \<noteq>
     Written Write_json (Path ''C:/root'') (Path ''report.txt'') items_Za"
proof -
  let ?es = "rglob (Path ''C:/root'') tree_Za"
  have h: "lower (suffix (Path ''report.txt'')) \<notin>
      {''.docx'', ''.xlsx'', ''.pdf'', ''.csv'', ''.json''}"
    by (simp add: eval)
  have x: "lower (suffix (Path ''report.txt'')) = ''.txt''"
    by (simp add: eval)
  have e: "analyze_folder (Path ''C:/root'') ?es = Inr items_Za"
    by (simp add: tree_Za_def items_Za_def eval)
  note t = unsupported_format_writes_nothing [OF h, of "''C:/root''" _ ?es]
  have "main ''C:/root'' ''report.txt'' True ?es = Error_format (lower (suffix (Path ''report.txt'')))"
    by (rule t [THEN conjunct2, THEN conjunct2, THEN mp, OF TrueI, THEN conjunct2,
                THEN spec, THEN mp, OF e])
  then have m: "main ''C:/root'' ''report.txt'' True ?es = Error_format ''.txt''"
    by (simp only: x)
  have "\<not> False" by simp
  then have f: "main ''C:/root'' ''report.txt'' False ?es = Error_folder"
    by (rule t [THEN conjunct2, THEN conjunct1, THEN mp])
  have w: "main ''C:/root'' ''report.txt'' True ?es \<noteq>
      Written Write_json (Path ''C:/root'') (Path ''report.txt'') items_Za"
    by (rule t [THEN conjunct1, THEN spec, THEN spec, THEN spec, THEN spec])
  from h e m f w show ?thesis by iprover
qed

text \<open>Claim C7 as stated has the run report an error of its own; when \<open>stat\<close> raises
  on a path of the folder the run ends with that exception, before the extension is
  looked at.\<close>

theorem unsupported_format_counterexample:
  "lower (suffix (Path ''report.txt'')) \<notin> {''.docx'', ''.xlsx'', ''.pdf'', ''.csv'', ''.json''} \<and>
   main ''C:/root'' ''report.txt'' True [entry_locked] = Exception OSError"
  by (simp add: main_def Let_def entry_locked_def analyze_folder_def analyze_folder_loop_Cons eval)

section \<open>The JSON report\<close>

text \<open>
  Claim C8. The value written as JSON has the shape of the specification: an object
  with the string \<open>folder\<close> and the list \<open>items\<close>, which holds one object per entry, in
  the order of the entries, with the integer \<open>level\<close> and the strings \<open>name\<close>, \<open>size\<close>,
  \<open>time\<close> and \<open>path\<close> of that entry. The size is a string also for a number of bytes:
  the entry stores the decimal digits.
\<close>

theorem json_report_shape:
  "spec_report_shape (write_json folder_path data) \<and>
   (\<exists>js. write_json folder_path data =
            JObj [(''folder'', JStr (str folder_path)), (''items'', JList js)] \<and>
         length js = length data \<and>
         (\<forall>k<length data.
            js ! k = JObj [(''level'', JInt (level (data ! k))),
                           (''name'', JStr (name (data ! k))),
                           (''size'', JStr (size' (data ! k))),
                           (''time'', JStr (time (data ! k))),
                           (''path'', JStr (path (data ! k)))])) \<and>
   size' (Item root_path path0 (Size n) time0) = str_nat n"
proof -
  have "spec_report_shape (write_json folder_path data)"
    by (simp add: spec_report_shape_def write_json_def spec_item_shape_def list_all_iff)
  moreover have "\<exists>js. write_json folder_path data =
            JObj [(''folder'', JStr (str folder_path)), (''items'', JList js)] \<and>
         length js = length data \<and>
         (\<forall>k<length data.
            js ! k = JObj [(''level'', JInt (level (data ! k))),
                           (''name'', JStr (name (data ! k))),
                           (''size'', JStr (size' (data ! k))),
                           (''time'', JStr (time (data ! k))),
                           (''path'', JStr (path (data ! k)))])"
    by (simp add: write_json_def)
  ultimately show ?thesis by simp
qed

theorem json_report_shape_witness:
  "spec_report_shape (write_json (Path ''C:/root'') items_abfile) \<and>
   (\<exists>js. write_json (Path ''C:/root'') items_abfile =
            JObj [(''folder'', JStr (''C:'' @ [sep] @ ''root'')), (''items'', JList js)] \<and>
         length js = 3 \<and>
         js ! 2 = JObj [(''level'', JInt 2), (''name'', JStr ''file.txt''),
                        (''size'', JStr ''12''), (''time'', JStr ''2024-03-09T07:05:01''),
                        (''path'', JStr (''C:'' @ [sep] @ ''root'' @ [sep] @ ''a'' @ [sep] @
                                         ''b'' @ [sep] @ ''file.txt''))])"
proof -
  from json_report_shape [of "Path ''C:/root''" items_abfile]
  obtain js where a: "spec_report_shape (write_json (Path ''C:/root'') items_abfile)"
    and b: "write_json (Path ''C:/root'') items_abfile =
            JObj [(''folder'', JStr (str (Path ''C:/root''))), (''items'', JList js)]"
    and c: "length js = length items_abfile"
    and d: "\<forall>k<length items_abfile.
            js ! k = JObj [(''level'', JInt (level (items_abfile ! k))),
                           (''name'', JStr (name (items_abfile ! k))),
                           (''size'', JStr (size' (items_abfile ! k))),
                           (''time'', JStr (time (items_abfile ! k))),
                           (''path'', JStr (path (items_abfile ! k)))]"
    by blast
  from b have b': "write_json (Path ''C:/root'') items_abfile =
            JObj [(''folder'', JStr (''C:'' @ [sep] @ ''root'')), (''items'', JList js)]"
    by (simp add: eval)
  from c have c': "length js = 3" by (simp add: items_abfile_def)
  have "2 < length items_abfile" by (simp add: items_abfile_def)
  with d have "js ! 2 = JObj [(''level'', JInt (level (items_abfile ! 2))),
                           (''name'', JStr (name (items_abfile ! 2))),
                           (''size'', JStr (size' (items_abfile ! 2))),
                           (''time'', JStr (time (items_abfile ! 2))),
                           (''path'', JStr (path (items_abfile ! 2)))]"
    by blast
  then have d': "js ! 2 = JObj [(''level'', JInt 2), (''name'', JStr ''file.txt''),
                        (''size'', JStr ''12''), (''time'', JStr ''2024-03-09T07:05:01''),
                        (''path'', JStr (''C:'' @ [sep] @ ''root'' @ [sep] @ ''a'' @ [sep] @
                                         ''b'' @ [sep] @ ''file.txt''))]"
    by (simp add: items_abfile_def eval)
  from a b' c' d' show ?thesis by blast
qed

section \<open>Where an archive and its contents stand in the raw sequence\<close>

lemma analyze_zip_split:
  assumes "analyze_zip rt (rs1 @ ZipInfo fname fsize dt data # rs2) zr = Inr items"
    and "lower (suffix (joinpath zr fname)) = ''.zip''"
  obtains nz pre nested post where
    "data = ZipFile nz" "analyze_zip rt rs1 zr = Inr pre"
    "analyze_zip rt nz (joinpath zr fname) = Inr nested"
    "analyze_zip rt rs2 zr = Inr post"
    "items = pre @ nested @
       Item (str rt) (str (joinpath zr fname)) (Token ''ZIP'') (TimeTuple dt) # post"
proof (cases "analyze_zip rt rs1 zr")
  case (Inl e)
  with assms(1) show ?thesis by (simp add: analyze_zip_append)
next
  case pre: (Inr pre)
  show ?thesis
  proof (cases "analyze_zip rt (ZipInfo fname fsize dt data # rs2) zr")
    case (Inl e)
    with assms(1) pre show ?thesis by (simp add: analyze_zip_append)
  next
    case (Inr rest)
    with assms(1) pre have items: "items = pre @ rest" by (simp add: analyze_zip_append)
    from Inr show ?thesis
    proof (cases rule: analyze_zip_Cons_Inr)
      case (zip nz nested post)
      with items pre that show ?thesis by simp
    next
      case (plain post)
      with assms(2) show ?thesis by simp
    qed
  qed
qed

lemma analyze_zip_abort:
  assumes "lower (suffix (joinpath zr fname)) = ''.zip''"
  shows "\<exists>err'. analyze_zip rt (rs1 @ ZipInfo fname fsize dt (Raises err) # rs2) zr = Inl err'"
proof (cases "analyze_zip rt rs1 zr")
  case (Inl e)
  then show ?thesis by (simp add: analyze_zip_append)
next
  case (Inr pre)
  with assms show ?thesis by (simp add: analyze_zip_append analyze_zip_Cons)
qed

lemma folder_loop_split:
  assumes "analyze_folder_loop rt (es1 @ e # es2) = Inr items"
    and "\<not> is_symlink e" and "lower (suffix (d_path e)) = ''.zip''"
  obtains zipf st pre nested post where
    "zipfile_open e = ZipFile zipf" "stat e = Some st"
    "analyze_folder_loop rt es1 = Inr pre"
    "analyze_zip rt zipf (d_path e) = Inr nested"
    "analyze_folder_loop rt es2 = Inr post"
    "items = pre @ nested @
       Item (str rt) (str (d_path e)) (Token ''ZIP'') (TimeStr (isoformat (snd st))) # post"
proof (cases "analyze_folder_loop rt es1")
  case (Inl err)
  with assms(1) show ?thesis by (simp add: folder_loop_append)
next
  case pre: (Inr pre)
  show ?thesis
  proof (cases "analyze_folder_loop rt (e # es2)")
    case (Inl err)
    with assms(1) pre show ?thesis by (simp add: folder_loop_append)
  next
    case (Inr rest)
    with assms(1) pre have items: "items = pre @ rest" by (simp add: folder_loop_append)
    from Inr show ?thesis
    proof (cases rule: analyze_folder_loop_Cons_Inr)
      case link
      with assms(2) show ?thesis by simp
    next
      case (zip st zipf nested post)
      with items pre that show ?thesis by simp
    next
      case (plain st post)
      with assms(3) show ?thesis by simp
    qed
  qed
qed

lemma folder_loop_abort:
  assumes "\<not> is_symlink e" and "is_dir e" and "lower (suffix (d_path e)) = ''.zip''"
  shows "\<exists>err. analyze_folder_loop rt (es1 @ e # es2) = Inl err"
proof (cases "analyze_folder_loop rt es1")
  case (Inl err)
  then show ?thesis by (simp add: folder_loop_append)
next
  case (Inr pre)
  with assms show ?thesis
    by (cases "stat e") (simp_all add: folder_loop_append analyze_folder_loop_Cons zipfile_open_def)
qed

text \<open>
  Claim C3. In the raw sequence of either walker, before the sort, the entries of what an
  archive holds, which are all that the archive walker returns for it and so include what
  archives nested in it hold, stand in one block directly before the entry of the archive.
\<close>

theorem archive_contents_before_archive:
  "(analyze_zip rt (rs1 @ ZipInfo fname fsize dt data # rs2) zr = Inr items \<longrightarrow>
    lower (suffix (joinpath zr fname)) = ''.zip'' \<longrightarrow>
    (\<exists>nz pre nested post.
       data = ZipFile nz \<and> analyze_zip rt rs1 zr = Inr pre \<and>
       analyze_zip rt nz (joinpath zr fname) = Inr nested \<and>
       analyze_zip rt rs2 zr = Inr post \<and>
       items = pre @ nested @
         Item (str rt) (str (joinpath zr fname)) (Token ''ZIP'') (TimeTuple dt) # post)) \<and>
   (analyze_folder_loop rt (es1 @ e # es2) = Inr raw \<longrightarrow>
    \<not> is_symlink e \<longrightarrow> lower (suffix (d_path e)) = ''.zip'' \<longrightarrow>
    (\<exists>zipf st pre nested post.
       zipfile_open e = ZipFile zipf \<and> stat e = Some st \<and>
       analyze_folder_loop rt es1 = Inr pre \<and>
       analyze_zip rt zipf (d_path e) = Inr nested \<and>
       analyze_folder_loop rt es2 = Inr post \<and>
       raw = pre @ nested @
         Item (str rt) (str (d_path e)) (Token ''ZIP'') (TimeStr (isoformat (snd st))) # post))"
proof (intro conjI impI)
  assume "analyze_zip rt (rs1 @ ZipInfo fname fsize dt data # rs2) zr = Inr items"
    and "lower (suffix (joinpath zr fname)) = ''.zip''"
  then show "\<exists>nz pre nested post.
       data = ZipFile nz \<and> analyze_zip rt rs1 zr = Inr pre \<and>
       analyze_zip rt nz (joinpath zr fname) = Inr nested \<and>
       analyze_zip rt rs2 zr = Inr post \<and>
       items = pre @ nested @
         Item (str rt) (str (joinpath zr fname)) (Token ''ZIP'') (TimeTuple dt) # post"
    by (rule analyze_zip_split) blast
next
  assume "analyze_folder_loop rt (es1 @ e # es2) = Inr raw"
    and "\<not> is_symlink e" and "lower (suffix (d_path e)) = ''.zip''"
  then show "\<exists>zipf st pre nested post.
       zipfile_open e = ZipFile zipf \<and> stat e = Some st \<and>
       analyze_folder_loop rt es1 = Inr pre \<and>
       analyze_zip rt zipf (d_path e) = Inr nested \<and>
       analyze_folder_loop rt es2 = Inr post \<and>
       raw = pre @ nested @
         Item (str rt) (str (d_path e)) (Token ''ZIP'') (TimeStr (isoformat (snd st))) # post"
    by (rule folder_loop_split) blast
qed

theorem archive_contents_before_archive_witness:
  "(\<exists>raw pre nested post.
      analyze_folder_loop (Path ''C:/root'') ([] @ entry_outer # [entry_z]) = Inr raw \<and>
      map name raw = [''leaf.txt'', ''inner.zip'', ''readme.txt'', ''outer.zip'', ''z.txt''] \<and>
      analyze_zip (Path ''C:/root'') zip_outer (d_path entry_outer) = Inr nested \<and>
      map name nested = [''leaf.txt'', ''inner.zip'', ''readme.txt''] \<and>
      raw = pre @ nested @
        Item (str (Path ''C:/root'')) (str (d_path entry_outer)) (Token ''ZIP'')
          (TimeStr (isoformat mtime0)) # post) \<and>
   (\<exists>items pre nested post.
      analyze_zip (Path ''C:/root'')
        ([] @ ZipInfo ''inner.zip'' 120 stamp0 (ZipFile zip_inner) #
           [ZipInfo ''readme.txt'' 7 stamp0 (Raises BadZipFile)])
        (d_path entry_outer) = Inr items \<and>
      analyze_zip (Path ''C:/root'') zip_inner (joinpath (d_path entry_outer) ''inner.zip'') =
        Inr nested \<and>
      map name nested = [''leaf.txt''] \<and>
      items = pre @ nested @
        Item (str (Path ''C:/root'')) (str (joinpath (d_path entry_outer) ''inner.zip''))
          (Token ''ZIP'') (TimeTuple stamp0) # post)"
proof -
  let ?rt = "Path ''C:/root''"
  let ?r2 = "ZipInfo ''readme.txt'' 7 stamp0 (Raises BadZipFile)"
  note ex = entry_outer_def entry_z_def zip_outer_def zip_inner_def
  have "\<exists>raw. analyze_folder_loop ?rt ([] @ entry_outer # [entry_z]) = Inr raw \<and>
      map name raw = [''leaf.txt'', ''inner.zip'', ''readme.txt'', ''outer.zip'', ''z.txt'']"
    by (simp add: ex eval)
  then obtain raw where raw: "analyze_folder_loop ?rt ([] @ entry_outer # [entry_z]) = Inr raw"
    and names: "map name raw =
      [''leaf.txt'', ''inner.zip'', ''readme.txt'', ''outer.zip'', ''z.txt'']"
    by iprover
  have l: "\<not> is_symlink entry_outer" by (simp add: ex)
  have z: "lower (suffix (d_path entry_outer)) = ''.zip''" by (simp add: ex eval)
  from archive_contents_before_archive
    [THEN conjunct2, rule_format, OF raw l z]
  obtain zipf st pre nested post where
    o: "zipfile_open entry_outer = ZipFile zipf" and s: "stat entry_outer = Some st" and
    n: "analyze_zip ?rt zipf (d_path entry_outer) = Inr nested" and
    r: "raw = pre @ nested @
         Item (str ?rt) (str (d_path entry_outer)) (Token ''ZIP'')
           (TimeStr (isoformat (snd st))) # post"
    by iprover
  from o have zipf: "zipf = zip_outer" by (simp add: entry_outer_def zipfile_open_def)
  from s have st: "snd st = mtime0" by (simp add: entry_outer_def) (metis snd_conv)
  have "\<exists>xs. analyze_zip ?rt zip_outer (d_path entry_outer) = Inr xs \<and>
      map name xs = [''leaf.txt'', ''inner.zip'', ''readme.txt'']"
    by (simp add: ex eval)
  then obtain xs where xs: "analyze_zip ?rt zip_outer (d_path entry_outer) = Inr xs"
      "map name xs = [''leaf.txt'', ''inner.zip'', ''readme.txt'']"
    by iprover
  from n xs(1) have "nested = xs" by (simp only: zipf sum.inject)
  with xs(2) have nn: "map name nested = [''leaf.txt'', ''inner.zip'', ''readme.txt'']"
    by (simp only:)
  from n have n': "analyze_zip ?rt zip_outer (d_path entry_outer) = Inr nested"
    by (simp only: zipf)
  from r have r': "raw = pre @ nested @
         Item (str ?rt) (str (d_path entry_outer)) (Token ''ZIP'')
           (TimeStr (isoformat mtime0)) # post"
    by (simp only: st)
  from raw names n' nn r' have first: "\<exists>raw pre nested post.
      analyze_folder_loop ?rt ([] @ entry_outer # [entry_z]) = Inr raw \<and>
      map name raw = [''leaf.txt'', ''inner.zip'', ''readme.txt'', ''outer.zip'', ''z.txt''] \<and>
      analyze_zip ?rt zip_outer (d_path entry_outer) = Inr nested \<and>
      map name nested = [''leaf.txt'', ''inner.zip'', ''readme.txt''] \<and>
      raw = pre @ nested @
        Item (str ?rt) (str (d_path entry_outer)) (Token ''ZIP'')
          (TimeStr (isoformat mtime0)) # post"
    by iprover
  have "\<exists>items. analyze_zip ?rt
        ([] @ ZipInfo ''inner.zip'' 120 stamp0 (ZipFile zip_inner) # [?r2])
        (d_path entry_outer) = Inr items"
    by (simp add: ex eval)
  then obtain items where items: "analyze_zip ?rt
        ([] @ ZipInfo ''inner.zip'' 120 stamp0 (ZipFile zip_inner) # [?r2])
        (d_path entry_outer) = Inr items"
    by iprover
  have z2: "lower (suffix (joinpath (d_path entry_outer) ''inner.zip'')) = ''.zip''"
    by (simp add: ex eval)
  from archive_contents_before_archive
    [THEN conjunct1, rule_format, OF items z2]
  obtain nz pre2 nested2 post2 where
    d2: "ZipFile zip_inner = ZipFile nz" and
    n2: "analyze_zip ?rt nz (joinpath (d_path entry_outer) ''inner.zip'') = Inr nested2" and
    r2: "items = pre2 @ nested2 @
         Item (str ?rt) (str (joinpath (d_path entry_outer) ''inner.zip'')) (Token ''ZIP'')
           (TimeTuple stamp0) # post2"
    by iprover
  from d2 have nz: "nz = zip_inner" by simp
  have "\<exists>xs. analyze_zip ?rt zip_inner (joinpath (d_path entry_outer) ''inner.zip'') = Inr xs \<and>
      map name xs = [''leaf.txt'']"
    by (simp add: ex eval)
  then obtain ys where ys:
      "analyze_zip ?rt zip_inner (joinpath (d_path entry_outer) ''inner.zip'') = Inr ys"
      "map name ys = [''leaf.txt'']"
    by iprover
  from n2 ys(1) have "nested2 = ys" by (simp only: nz sum.inject)
  with ys(2) have nn2: "map name nested2 = [''leaf.txt'']" by (simp only:)
  from n2 have n2': "analyze_zip ?rt zip_inner (joinpath (d_path entry_outer) ''inner.zip'') =
      Inr nested2"
    by (simp only: nz)
  from items n2' nn2 r2 have second: "\<exists>items pre nested post.
      analyze_zip ?rt
        ([] @ ZipInfo ''inner.zip'' 120 stamp0 (ZipFile zip_inner) # [?r2])
        (d_path entry_outer) = Inr items \<and>
      analyze_zip ?rt zip_inner (joinpath (d_path entry_outer) ''inner.zip'') = Inr nested \<and>
      map name nested = [''leaf.txt''] \<and>
      items = pre @ nested @
        Item (str ?rt) (str (joinpath (d_path entry_outer) ''inner.zip''))
          (Token ''ZIP'') (TimeTuple stamp0) # post"
    by iprover
  from first second show ?thesis by (rule conjI)
qed

section \<open>The size of a record of an archive\<close>

lemma zip_record_token:
  assumes "analyze_zip rt (rs1 @ ZipInfo fname fsize dt data # rs2) zr = Inr items"
  shows "\<exists>pre nested post.
     items = pre @ nested @
       Item (str rt) (str (joinpath zr fname))
         (if lower (suffix (joinpath zr fname)) = ''.zip'' then Token ''ZIP''
          else if endswith fname ''/'' then Token ''FOLDER'' else Size fsize)
         (TimeTuple dt) # post"
proof (cases "lower (suffix (joinpath zr fname)) = ''.zip''")
  case True
  from assms True obtain nz pre nested post where
    "items = pre @ nested @
       Item (str rt) (str (joinpath zr fname)) (Token ''ZIP'') (TimeTuple dt) # post"
    by (rule analyze_zip_split)
  with True show ?thesis by auto
next
  case False
  show ?thesis
  proof (cases "analyze_zip rt rs1 zr")
    case (Inl e)
    with assms show ?thesis by (simp add: analyze_zip_append)
  next
    case pre: (Inr pre)
    show ?thesis
    proof (cases "analyze_zip rt rs2 zr")
      case (Inl e)
      with assms pre False show ?thesis by (simp add: analyze_zip_append analyze_zip_Cons)
    next
      case (Inr post)
      with assms pre False have "items = pre @ [] @
          Item (str rt) (str (joinpath zr fname))
            (if endswith fname ''/'' then Token ''FOLDER'' else Size fsize) (TimeTuple dt) # post"
        by (simp add: analyze_zip_append analyze_zip_Cons)
      with False show ?thesis by (simp only: if_False) iprover
    qed
  qed
qed

text \<open>
  Claim C4 fails on the code. The record \<open>d.zip/\<close> of a folder has a name that ends with
  the separator, and its path has the extension \<open>.zip\<close>: the walker does not give it the
  size \<open>FOLDER\<close>, it opens the record as an archive, which ends the walk with an error
  (or, when the bytes of the record are an archive, gives the size \<open>ZIP\<close>). The record
  \<open>d/\<close> gets \<open>FOLDER\<close>.
\<close>

theorem folder_record_with_zip_suffix:
  "analyze_zip (Path ''C:/root'') [record_dir_zip] (Path ''C:/root/a.zip'') = Inl BadZipFile \<and>
   map size' (projr (analyze_zip (Path ''C:/root'') [record_dir_zip_crafted]
     (Path ''C:/root/a.zip''))) = [''ZIP''] \<and>
   map size' (projr (analyze_zip (Path ''C:/root'') [record_dir] (Path ''C:/root/a.zip''))) =
     [''FOLDER'']"
  by (simp add: record_dir_zip_def record_dir_zip_crafted_def record_dir_def eval)

theorem folder_record_with_zip_suffix_witness:
  "isl (analyze_zip (Path ''C:/root'') [record_dir_zip] (Path ''C:/root/a.zip''))"
proof -
  from folder_record_with_zip_suffix
  have "analyze_zip (Path ''C:/root'') [record_dir_zip] (Path ''C:/root/a.zip'') = Inl BadZipFile"
    by (rule conjunct1)
  then show ?thesis by (simp only: sum.disc)
qed

section \<open>Folders with the extension of an archive\<close>

text \<open>
  Claim C9, as amended. The test for the extension \<open>.zip\<close> comes after the test for a
  folder and overrides it. A real folder with that extension is opened as an archive,
  which fails and ends the scan with an error. The record of a folder in an archive whose
  path has that extension is opened as an archive too: the walk ends with an error when
  the bytes of the record are not a readable archive, as for every record of a folder that
  has no bytes; when they are, the walk goes on and the record is reported with the size
  \<open>ZIP\<close>, its contents before it. In no case is it reported as \<open>FOLDER\<close>.
\<close>

theorem zip_suffix_overrides_folder:
  "(\<not> is_symlink e \<longrightarrow> is_dir e \<longrightarrow> lower (suffix (d_path e)) = ''.zip'' \<longrightarrow>
      (\<exists>err. analyze_folder rt (es1 @ e # es2) = Inl err)) \<and>
   (endswith fname ''/'' \<longrightarrow> lower (suffix (joinpath zr fname)) = ''.zip'' \<longrightarrow>
      (\<exists>err'. analyze_zip rt (rs1 @ ZipInfo fname fsize dt (Raises err) # rs2) zr = Inl err') \<and>
      (analyze_zip rt (rs1 @ ZipInfo fname fsize dt data # rs2) zr = Inr items \<longrightarrow>
         (\<exists>nz pre nested post.
            data = ZipFile nz \<and> analyze_zip rt nz (joinpath zr fname) = Inr nested \<and>
            items = pre @ nested @
              Item (str rt) (str (joinpath zr fname)) (Token ''ZIP'') (TimeTuple dt) # post)))"
proof (intro conjI impI)
  assume "\<not> is_symlink e" "is_dir e" "lower (suffix (d_path e)) = ''.zip''"
  then obtain err where "analyze_folder_loop rt (es1 @ e # es2) = Inl err"
    using folder_loop_abort by blast
  then show "\<exists>err. analyze_folder rt (es1 @ e # es2) = Inl err"
    by (simp add: analyze_folder_def)
next
  assume "lower (suffix (joinpath zr fname)) = ''.zip''"
  then show "\<exists>err'. analyze_zip rt (rs1 @ ZipInfo fname fsize dt (Raises err) # rs2) zr = Inl err'"
    by (rule analyze_zip_abort)
next
  assume "lower (suffix (joinpath zr fname)) = ''.zip''"
    and "analyze_zip rt (rs1 @ ZipInfo fname fsize dt data # rs2) zr = Inr items"
  from this(2,1) show "\<exists>nz pre nested post.
            data = ZipFile nz \<and> analyze_zip rt nz (joinpath zr fname) = Inr nested \<and>
            items = pre @ nested @
              Item (str rt) (str (joinpath zr fname)) (Token ''ZIP'') (TimeTuple dt) # post"
    by (rule analyze_zip_split) iprover
qed

text \<open>Claim C9 as stated has the walk end with an error for every such record; for the
  record \<open>d.zip/\<close> whose bytes are an empty archive it returns the entry.\<close>

theorem zip_suffix_folder_record_counterexample:
  "analyze_zip (Path ''C:/root'') [record_dir_zip_crafted] (Path ''C:/root/a.zip'') =
     Inr [Item (''C:'' @ [sep] @ ''root'')
            (''C:'' @ [sep] @ ''root'' @ [sep] @ ''a.zip'' @ [sep] @ ''d.zip'')
            (Token ''ZIP'') (TimeTuple stamp0)]"
  by (simp add: record_dir_zip_crafted_def eval)

theorem zip_suffix_overrides_folder_witness:
  "(\<exists>err. analyze_folder (Path ''C:/root'') ([] @ entry_dir_zip # [entry_z]) = Inl err) \<and>
   (\<exists>err'. analyze_zip (Path ''C:/root'')
        ([] @ ZipInfo ''d.zip/'' 0 stamp0 (Raises BadZipFile) # []) (Path ''C:/root/a.zip'') =
      Inl err') \<and>
   (\<exists>items nz pre nested post.
      analyze_zip (Path ''C:/root'') ([] @ ZipInfo ''d.zip/'' 22 stamp0 (ZipFile []) # [])
        (Path ''C:/root/a.zip'') = Inr items \<and>
      ZipFile [] = ZipFile nz \<and>
      analyze_zip (Path ''C:/root'') nz (joinpath (Path ''C:/root/a.zip'') ''d.zip/'') =
        Inr nested \<and>
      items = pre @ nested @
        Item (str (Path ''C:/root'')) (str (joinpath (Path ''C:/root/a.zip'') ''d.zip/''))
          (Token ''ZIP'') (TimeTuple stamp0) # post)"
proof -
  let ?rt = "Path ''C:/root''"
  let ?zr = "Path ''C:/root/a.zip''"
  have l: "\<not> is_symlink entry_dir_zip" and d: "is_dir entry_dir_zip"
    by (simp_all add: entry_dir_zip_def)
  have z: "lower (suffix (d_path entry_dir_zip)) = ''.zip''"
    by (simp add: entry_dir_zip_def eval)
  have s: "endswith ''d.zip/'' ''/''" by (simp add: endswith_def)
  have z2: "lower (suffix (joinpath ?zr ''d.zip/'')) = ''.zip''" by (simp add: eval)
  have "\<exists>items. analyze_zip ?rt ([] @ ZipInfo ''d.zip/'' 22 stamp0 (ZipFile []) # []) ?zr =
      Inr items"
    by (simp add: eval)
  then obtain items where
    items: "analyze_zip ?rt ([] @ ZipInfo ''d.zip/'' 22 stamp0 (ZipFile []) # []) ?zr = Inr items"
    by iprover
  have a: "\<exists>err. analyze_folder ?rt ([] @ entry_dir_zip # [entry_z]) = Inl err"
    by (rule zip_suffix_overrides_folder [THEN conjunct1, rule_format, OF l d z])
  have b: "\<exists>err'. analyze_zip ?rt
        ([] @ ZipInfo ''d.zip/'' 0 stamp0 (Raises BadZipFile) # []) ?zr = Inl err'"
    by (rule zip_suffix_overrides_folder
          [THEN conjunct2, rule_format, OF s z2, THEN conjunct1])
  have c: "\<exists>nz pre nested post.
      ZipFile [] = ZipFile nz \<and>
      analyze_zip ?rt nz (joinpath ?zr ''d.zip/'') = Inr nested \<and>
      items = pre @ nested @
        Item (str ?rt) (str (joinpath ?zr ''d.zip/'')) (Token ''ZIP'') (TimeTuple stamp0) # post"
    by (rule zip_suffix_overrides_folder
          [THEN conjunct2, rule_format, OF s z2, THEN conjunct2, rule_format, OF items])
  from items c have c': "\<exists>items nz pre nested post.
      analyze_zip ?rt ([] @ ZipInfo ''d.zip/'' 22 stamp0 (ZipFile []) # []) ?zr = Inr items \<and>
      ZipFile [] = ZipFile nz \<and>
      analyze_zip ?rt nz (joinpath ?zr ''d.zip/'') = Inr nested \<and>
      items = pre @ nested @
        Item (str ?rt) (str (joinpath ?zr ''d.zip/'')) (Token ''ZIP'') (TimeTuple stamp0) # post"
    by iprover
  from a b c' show ?thesis by iprover
qed

section \<open>The two formats of the time\<close>

lemma digit_in_digits: "d < 10 \<Longrightarrow> digit d \<in> set ''0123456789''"
  unfolding digit_def by (rule nth_mem) simp

lemma str_nat_digits: "set (str_nat n) \<subseteq> set ''0123456789''"
proof (induction n rule: str_nat.induct)
  case (1 n)
  show ?case
  proof (cases "n < 10")
    case True
    then have "str_nat n = [digit n]" by (simp add: str_nat.simps)
    with True digit_in_digits[of n] show ?thesis by simp
  next
    case False
    then have "str_nat n = str_nat (n div 10) @ [digit (n mod 10)]"
      by (subst str_nat.simps) simp
    moreover have "digit (n mod 10) \<in> set ''0123456789''" by (rule digit_in_digits) simp
    ultimately show ?thesis using 1[OF False] by simp
  qed
qed

lemma zero_pad_digits: "set (zero_pad w n) \<subseteq> set ''0123456789''"
  using str_nat_digits[of n] by (auto simp: zero_pad_def)

lemma paren_not_in_isoformat: "CHR ''('' \<notin> set (isoformat mt)"
proof -
  have "CHR ''('' \<notin> set (zero_pad w n)" for w n
    using zero_pad_digits[of w n] by auto
  then show ?thesis by (simp add: isoformat_def)
qed

lemma paren_in_str_date_time: "CHR ''('' \<in> set (str_date_time t)"
  by (cases t) (simp add: str_date_time_def)

lemma isoformat_neq_str_date_time: "isoformat mt \<noteq> str_date_time t"
  using paren_not_in_isoformat[of mt] paren_in_str_date_time[of t] by metis

lemma analyze_zip_at:
  assumes "analyze_zip rt (rs1 @ ZipInfo fname fsize dt data # rs2) zr = Inr items"
  obtains pre nested post i where
    "analyze_zip rt rs1 zr = Inr pre" "analyze_zip rt rs2 zr = Inr post"
    "items = pre @ nested @ i # post"
    "path i = str (joinpath zr fname)" "time i = str_date_time dt"
    "if lower (suffix (joinpath zr fname)) = ''.zip''
     then \<exists>nz. data = ZipFile nz \<and> analyze_zip rt nz (joinpath zr fname) = Inr nested
     else nested = []"
proof (cases "lower (suffix (joinpath zr fname)) = ''.zip''")
  case True
  from assms True obtain nz pre nested post where
    "data = ZipFile nz" "analyze_zip rt rs1 zr = Inr pre"
    "analyze_zip rt nz (joinpath zr fname) = Inr nested"
    "analyze_zip rt rs2 zr = Inr post"
    "items = pre @ nested @
       Item (str rt) (str (joinpath zr fname)) (Token ''ZIP'') (TimeTuple dt) # post"
    by (rule analyze_zip_split)
  with True show ?thesis
    by (intro that [of pre post nested
          "Item (str rt) (str (joinpath zr fname)) (Token ''ZIP'') (TimeTuple dt)"]) simp_all
next
  case False
  show ?thesis
  proof (cases "analyze_zip rt rs1 zr")
    case (Inl e)
    with assms show ?thesis by (simp add: analyze_zip_append)
  next
    case pre: (Inr pre)
    show ?thesis
    proof (cases "analyze_zip rt rs2 zr")
      case (Inl e)
      with assms pre False show ?thesis by (simp add: analyze_zip_append analyze_zip_Cons)
    next
      case (Inr post)
      with assms pre False have "items = pre @ [] @
          Item (str rt) (str (joinpath zr fname))
            (if endswith fname ''/'' then Token ''FOLDER'' else Size fsize) (TimeTuple dt) # post"
        by (simp add: analyze_zip_append analyze_zip_Cons)
      with pre Inr False show ?thesis
        by (intro that [of pre post "[]"
              "Item (str rt) (str (joinpath zr fname))
                 (if endswith fname ''/'' then Token ''FOLDER'' else Size fsize)
                 (TimeTuple dt)"]) simp_all
    qed
  qed
qed

lemma folder_loop_at:
  assumes "analyze_folder_loop rt (es1 @ e # es2) = Inr raw" and "\<not> is_symlink e"
  obtains st pre nested post i where
    "stat e = Some st"
    "analyze_folder_loop rt es1 = Inr pre" "analyze_folder_loop rt es2 = Inr post"
    "raw = pre @ nested @ i # post"
    "path i = str (d_path e)" "time i = isoformat (snd st)"
    "if lower (suffix (d_path e)) = ''.zip''
     then \<exists>zipf. zipfile_open e = ZipFile zipf \<and> analyze_zip rt zipf (d_path e) = Inr nested
     else nested = []"
proof (cases "analyze_folder_loop rt es1")
  case (Inl err)
  with assms(1) show ?thesis by (simp add: folder_loop_append)
next
  case pre: (Inr pre)
  show ?thesis
  proof (cases "analyze_folder_loop rt (e # es2)")
    case (Inl err)
    with assms(1) pre show ?thesis by (simp add: folder_loop_append)
  next
    case (Inr rest)
    with assms(1) pre have raw: "raw = pre @ rest" by (simp add: folder_loop_append)
    from Inr show ?thesis
    proof (cases rule: analyze_folder_loop_Cons_Inr)
      case link
      with assms(2) show ?thesis by simp
    next
      case (zip st zipf nested post)
      with raw pre show ?thesis
        by (intro that [of st pre post nested
              "Item (str rt) (str (d_path e)) (Token ''ZIP'') (TimeStr (isoformat (snd st)))"])
           simp_all
    next
      case (plain st post)
      with raw pre show ?thesis
        by (intro that [of st pre post "[]"
              "Item (str rt) (str (d_path e))
                 (if is_dir e then Token ''FOLDER'' else Size (fst st))
                 (TimeStr (isoformat (snd st)))"])
           simp_all
    qed
  qed
qed

lemma analyze_zip_times:
  "analyze_zip rt zf zr = Inr items \<Longrightarrow> i \<in> set items \<Longrightarrow>
   \<exists>t\<in>set (record_times zf). time i = str_date_time t"
proof (induction zf arbitrary: zr items rule: zip_induct)
  case Nil
  then show ?case by simp
next
  case (Cons fname fsize dt data zipf)
  have here: "dt \<in> set (record_times (ZipInfo fname fsize dt data # zipf))"
    by (cases data) simp_all
  have rest: "set (record_times zipf) \<subseteq> set (record_times (ZipInfo fname fsize dt data # zipf))"
    by (cases data) auto
  from Cons.prems(1) show ?case
  proof (cases rule: analyze_zip_Cons_Inr)
    case (zip nz nested rest')
    have inner: "set (record_times nz) \<subseteq> set (record_times (ZipInfo fname fsize dt data # zipf))"
      using zip(2) by auto
    from zip Cons.prems(2) consider "i \<in> set nested"
      | "i = Item (str rt) (str (joinpath zr fname)) (Token ''ZIP'') (TimeTuple dt)"
      | "i \<in> set rest'" by auto
    then show ?thesis
    proof cases
      case 1
      from Cons.IH(1)[OF zip(2) zip(3) 1] inner show ?thesis by blast
    next
      case 2
      then have "time i = str_date_time dt" by simp
      with here show ?thesis by blast
    next
      case 3
      from Cons.IH(2)[OF zip(4) 3] rest show ?thesis by blast
    qed
  next
    case (plain rest')
    from plain Cons.prems(2) consider
        "i = Item (str rt) (str (joinpath zr fname))
               (if endswith fname ''/'' then Token ''FOLDER'' else Size fsize) (TimeTuple dt)"
      | "i \<in> set rest'" by auto
    then show ?thesis
    proof cases
      case 1
      then have "time i = str_date_time dt" by simp
      with here show ?thesis by blast
    next
      case 2
      from Cons.IH(2)[OF plain(2) 2] rest show ?thesis by blast
    qed
  qed
qed

lemma folder_loop_times:
  "analyze_folder_loop rt es = Inr raw \<Longrightarrow> i \<in> set raw \<Longrightarrow>
   (\<exists>e\<in>set es. \<not> is_symlink e \<and> stat e \<noteq> None \<and> path i = str (d_path e) \<and>
      time i = isoformat (snd (the (stat e)))) \<or>
   (\<exists>e\<in>set es. \<exists>zipf. \<not> is_symlink e \<and> zipfile_open e = ZipFile zipf \<and>
      (\<exists>t\<in>set (record_times zipf). time i = str_date_time t))"
proof (induction es arbitrary: raw)
  case Nil
  then show ?case by simp
next
  case (Cons e es)
  let ?fs = "\<lambda>xs. \<exists>e\<in>set xs. \<not> is_symlink e \<and> stat e \<noteq> None \<and> path i = str (d_path e) \<and>
      time i = isoformat (snd (the (stat e)))"
  let ?zp = "\<lambda>xs. \<exists>e\<in>set xs. \<exists>zipf. \<not> is_symlink e \<and> zipfile_open e = ZipFile zipf \<and>
      (\<exists>t\<in>set (record_times zipf). time i = str_date_time t)"
  have weaken: "?fs (e # es) \<or> ?zp (e # es)" if "?fs es \<or> ?zp es"
    using that by auto
  from Cons.prems(1) show ?case
  proof (cases rule: analyze_folder_loop_Cons_Inr)
    case link
    from Cons.IH[OF link(2) Cons.prems(2)] show ?thesis by (rule weaken)
  next
    case (zip st zipf nested rest)
    from zip Cons.prems(2) consider "i \<in> set nested"
      | "i = Item (str rt) (str (d_path e)) (Token ''ZIP'') (TimeStr (isoformat (snd st)))"
      | "i \<in> set rest" by auto
    then show ?thesis
    proof cases
      case 1
      from analyze_zip_times[OF zip(5) 1] zip(1) zip(4) have "?zp (e # es)" by auto
      then show ?thesis ..
    next
      case 2
      with zip(1) zip(2) have "?fs (e # es)" by simp
      then show ?thesis ..
    next
      case 3
      from Cons.IH[OF zip(6) 3] show ?thesis by (rule weaken)
    qed
  next
    case (plain st rest)
    from plain Cons.prems(2) consider
        "i = Item (str rt) (str (d_path e))
               (if is_dir e then Token ''FOLDER'' else Size (fst st))
               (TimeStr (isoformat (snd st)))"
      | "i \<in> set rest" by auto
    then show ?thesis
    proof cases
      case 1
      with plain(1) plain(2) have "?fs (e # es)" by simp
      then show ?thesis ..
    next
      case 2
      from Cons.IH[OF plain(4) 2] show ?thesis by (rule weaken)
    qed
  qed
qed

text \<open>
  Claim C10. The time of an entry has one of two formats, by where the entry comes from.
  In the archive walker the entry of a record carries the string of the six numbers of
  that record's \<open>date_time\<close>, and every entry carries such a string of a record of the
  archive or of an archive found in it. In the tree walker the entry of a listed path
  carries the \<open>isoformat\<close> of that path's modification time, the entries before it being
  those of the archive it is, if any; and every entry of a scan is the entry of a listed
  path with that time, or carries the string of the six numbers of a record of a listed
  archive. No string has both formats.
\<close>

theorem time_formats:
  "(analyze_zip rt (rs1 @ ZipInfo fname fsize dt data # rs2) zr = Inr items \<longrightarrow>
      (\<exists>pre nested post i.
         analyze_zip rt rs1 zr = Inr pre \<and> analyze_zip rt rs2 zr = Inr post \<and>
         items = pre @ nested @ i # post \<and>
         path i = str (joinpath zr fname) \<and> time i = str_date_time dt \<and>
         (if lower (suffix (joinpath zr fname)) = ''.zip''
          then \<exists>nz. data = ZipFile nz \<and> analyze_zip rt nz (joinpath zr fname) = Inr nested
          else nested = []))) \<and>
   (analyze_zip rt zf zr' = Inr items' \<longrightarrow>
      (\<forall>i\<in>set items'. \<exists>t\<in>set (record_times zf). time i = str_date_time t)) \<and>
   (analyze_folder_loop rt (es1 @ e # es2) = Inr raw \<longrightarrow> \<not> is_symlink e \<longrightarrow>
      (\<exists>st pre nested post i.
         stat e = Some st \<and>
         analyze_folder_loop rt es1 = Inr pre \<and> analyze_folder_loop rt es2 = Inr post \<and>
         raw = pre @ nested @ i # post \<and>
         path i = str (d_path e) \<and> time i = isoformat (snd st) \<and>
         (if lower (suffix (d_path e)) = ''.zip''
          then \<exists>zipf. zipfile_open e = ZipFile zipf \<and>
                 analyze_zip rt zipf (d_path e) = Inr nested
          else nested = []))) \<and>
   (analyze_folder rt es = Inr sorted_items \<longrightarrow>
      (\<forall>i\<in>set sorted_items.
         (\<exists>e\<in>set es. \<not> is_symlink e \<and> stat e \<noteq> None \<and> path i = str (d_path e) \<and>
            time i = isoformat (snd (the (stat e)))) \<or>
         (\<exists>e\<in>set es. \<exists>zipf. \<not> is_symlink e \<and> zipfile_open e = ZipFile zipf \<and>
            (\<exists>t\<in>set (record_times zipf). time i = str_date_time t)))) \<and>
   (\<forall>mt t. isoformat mt \<noteq> str_date_time t)"
proof (intro conjI impI ballI allI)
  assume "analyze_zip rt (rs1 @ ZipInfo fname fsize dt data # rs2) zr = Inr items"
  then show "\<exists>pre nested post i.
         analyze_zip rt rs1 zr = Inr pre \<and> analyze_zip rt rs2 zr = Inr post \<and>
         items = pre @ nested @ i # post \<and>
         path i = str (joinpath zr fname) \<and> time i = str_date_time dt \<and>
         (if lower (suffix (joinpath zr fname)) = ''.zip''
          then \<exists>nz. data = ZipFile nz \<and> analyze_zip rt nz (joinpath zr fname) = Inr nested
          else nested = [])"
    by (rule analyze_zip_at) iprover
next
  fix i
  assume "analyze_zip rt zf zr' = Inr items'" and "i \<in> set items'"
  then show "\<exists>t\<in>set (record_times zf). time i = str_date_time t"
    by (rule analyze_zip_times)
next
  assume "analyze_folder_loop rt (es1 @ e # es2) = Inr raw" and "\<not> is_symlink e"
  then show "\<exists>st pre nested post i.
         stat e = Some st \<and>
         analyze_folder_loop rt es1 = Inr pre \<and> analyze_folder_loop rt es2 = Inr post \<and>
         raw = pre @ nested @ i # post \<and>
         path i = str (d_path e) \<and> time i = isoformat (snd st) \<and>
         (if lower (suffix (d_path e)) = ''.zip''
          then \<exists>zipf. zipfile_open e = ZipFile zipf \<and>
                 analyze_zip rt zipf (d_path e) = Inr nested
          else nested = [])"
    by (rule folder_loop_at) iprover
next
  fix i
  assume a: "analyze_folder rt es = Inr sorted_items" and i: "i \<in> set sorted_items"
  from a obtain raw where raw: "analyze_folder_loop rt es = Inr raw"
    and "sorted_items = sort_key (\<lambda>x. lower (path x)) raw"
    by (cases "analyze_folder_loop rt es") (auto simp: analyze_folder_def)
  with i have "i \<in> set raw" by simp
  with raw show "(\<exists>e\<in>set es. \<not> is_symlink e \<and> stat e \<noteq> None \<and> path i = str (d_path e) \<and>
            time i = isoformat (snd (the (stat e)))) \<or>
         (\<exists>e\<in>set es. \<exists>zipf. \<not> is_symlink e \<and> zipfile_open e = ZipFile zipf \<and>
            (\<exists>t\<in>set (record_times zipf). time i = str_date_time t))"
    by (rule folder_loop_times)
next
  fix mt t
  show "isoformat mt \<noteq> str_date_time t" by (rule isoformat_neq_str_date_time)
qed

theorem time_formats_witness:
  "(\<exists>items pre nested post i.
      analyze_zip (Path ''C:/root'')
        ([] @ ZipInfo ''inner.zip'' 120 stamp0 (ZipFile zip_inner) #
           [ZipInfo ''readme.txt'' 7 stamp0 (Raises BadZipFile)])
        (d_path entry_outer) = Inr items \<and>
      map name items = [''leaf.txt'', ''inner.zip'', ''readme.txt''] \<and>
      map time items =
        [''(2024, 3, 9, 7, 5, 0)'', ''(2024, 3, 9, 7, 5, 0)'', ''(2024, 3, 9, 7, 5, 0)''] \<and>
      items = pre @ nested @ i # post \<and>
      path i = str (joinpath (d_path entry_outer) ''inner.zip'') \<and>
      time i = str_date_time stamp0) \<and>
   (\<exists>items'.
      analyze_zip (Path ''C:/root'') zip_outer (d_path entry_outer) = Inr items' \<and>
      (\<forall>i\<in>set items'. \<exists>t\<in>set (record_times zip_outer). time i = str_date_time t)) \<and>
   (\<exists>raw st pre nested post i.
      analyze_folder_loop (Path ''C:/root'') ([] @ entry_outer # [entry_z]) = Inr raw \<and>
      map name raw = [''leaf.txt'', ''inner.zip'', ''readme.txt'', ''outer.zip'', ''z.txt''] \<and>
      map time raw =
        [''(2024, 3, 9, 7, 5, 0)'', ''(2024, 3, 9, 7, 5, 0)'', ''(2024, 3, 9, 7, 5, 0)'',
         ''2024-03-09T07:05:01'', ''2024-03-09T07:05:01''] \<and>
      stat entry_outer = Some st \<and>
      raw = pre @ nested @ i # post \<and>
      path i = str (d_path entry_outer) \<and> time i = isoformat (snd st)) \<and>
   (\<exists>sorted_items.
      analyze_folder (Path ''C:/root'') [entry_outer, entry_z] = Inr sorted_items \<and>
      map name sorted_items =
        [''outer.zip'', ''inner.zip'', ''leaf.txt'', ''readme.txt'', ''z.txt''] \<and>
      map time sorted_items =
        [''2024-03-09T07:05:01'', ''(2024, 3, 9, 7, 5, 0)'', ''(2024, 3, 9, 7, 5, 0)'',
         ''(2024, 3, 9, 7, 5, 0)'', ''2024-03-09T07:05:01''] \<and>
      (\<forall>i\<in>set sorted_items.
         (\<exists>e\<in>set [entry_outer, entry_z].
            \<not> is_symlink e \<and> stat e \<noteq> None \<and> path i = str (d_path e) \<and>
            time i = isoformat (snd (the (stat e)))) \<or>
         (\<exists>e\<in>set [entry_outer, entry_z]. \<exists>zipf.
            \<not> is_symlink e \<and> zipfile_open e = ZipFile zipf \<and>
            (\<exists>t\<in>set (record_times zipf). time i = str_date_time t)))) \<and>
   isoformat mtime0 \<noteq> str_date_time stamp0"
proof -
  let ?rt = "Path ''C:/root''"
  let ?r2 = "ZipInfo ''readme.txt'' 7 stamp0 (Raises BadZipFile)"
  note ex = entry_outer_def entry_z_def zip_outer_def zip_inner_def
  have "\<exists>items. analyze_zip ?rt
        ([] @ ZipInfo ''inner.zip'' 120 stamp0 (ZipFile zip_inner) # [?r2])
        (d_path entry_outer) = Inr items \<and>
      map name items = [''leaf.txt'', ''inner.zip'', ''readme.txt''] \<and>
      map time items =
        [''(2024, 3, 9, 7, 5, 0)'', ''(2024, 3, 9, 7, 5, 0)'', ''(2024, 3, 9, 7, 5, 0)'']"
    by (simp add: ex eval)
  then obtain items where
    items: "analyze_zip ?rt
        ([] @ ZipInfo ''inner.zip'' 120 stamp0 (ZipFile zip_inner) # [?r2])
        (d_path entry_outer) = Inr items" and
    n1: "map name items = [''leaf.txt'', ''inner.zip'', ''readme.txt'']" and
    t1: "map time items =
        [''(2024, 3, 9, 7, 5, 0)'', ''(2024, 3, 9, 7, 5, 0)'', ''(2024, 3, 9, 7, 5, 0)'']"
    by iprover
  from time_formats [THEN conjunct1, THEN mp, OF items]
  obtain pre nested post i where
    "items = pre @ nested @ i # post"
    "path i = str (joinpath (d_path entry_outer) ''inner.zip'')"
    "time i = str_date_time stamp0"
    by iprover
  with items n1 t1 have first: "\<exists>items pre nested post i.
      analyze_zip ?rt
        ([] @ ZipInfo ''inner.zip'' 120 stamp0 (ZipFile zip_inner) # [?r2])
        (d_path entry_outer) = Inr items \<and>
      map name items = [''leaf.txt'', ''inner.zip'', ''readme.txt''] \<and>
      map time items =
        [''(2024, 3, 9, 7, 5, 0)'', ''(2024, 3, 9, 7, 5, 0)'', ''(2024, 3, 9, 7, 5, 0)''] \<and>
      items = pre @ nested @ i # post \<and>
      path i = str (joinpath (d_path entry_outer) ''inner.zip'') \<and>
      time i = str_date_time stamp0"
    by iprover
  have "\<exists>items'. analyze_zip ?rt zip_outer (d_path entry_outer) = Inr items'"
    by (simp add: ex eval)
  then obtain items' where
    items': "analyze_zip ?rt zip_outer (d_path entry_outer) = Inr items'"
    by iprover
  have "\<forall>i\<in>set items'. \<exists>t\<in>set (record_times zip_outer). time i = str_date_time t"
    by (rule time_formats [THEN conjunct2, THEN conjunct1, THEN mp, OF items'])
  with items' have second: "\<exists>items'.
      analyze_zip ?rt zip_outer (d_path entry_outer) = Inr items' \<and>
      (\<forall>i\<in>set items'. \<exists>t\<in>set (record_times zip_outer). time i = str_date_time t)"
    by iprover
  have "\<exists>raw. analyze_folder_loop ?rt ([] @ entry_outer # [entry_z]) = Inr raw \<and>
      map name raw = [''leaf.txt'', ''inner.zip'', ''readme.txt'', ''outer.zip'', ''z.txt''] \<and>
      map time raw =
        [''(2024, 3, 9, 7, 5, 0)'', ''(2024, 3, 9, 7, 5, 0)'', ''(2024, 3, 9, 7, 5, 0)'',
         ''2024-03-09T07:05:01'', ''2024-03-09T07:05:01'']"
    by (simp add: ex eval)
  then obtain raw where
    raw: "analyze_folder_loop ?rt ([] @ entry_outer # [entry_z]) = Inr raw" and
    n3: "map name raw =
      [''leaf.txt'', ''inner.zip'', ''readme.txt'', ''outer.zip'', ''z.txt'']" and
    t3: "map time raw =
        [''(2024, 3, 9, 7, 5, 0)'', ''(2024, 3, 9, 7, 5, 0)'', ''(2024, 3, 9, 7, 5, 0)'',
         ''2024-03-09T07:05:01'', ''2024-03-09T07:05:01'']"
    by iprover
  have l: "\<not> is_symlink entry_outer" by (simp add: entry_outer_def)
  from time_formats
    [THEN conjunct2, THEN conjunct2, THEN conjunct1, THEN mp, THEN mp, OF raw l]
  obtain st pre' nested' post' i' where
    "stat entry_outer = Some st" "raw = pre' @ nested' @ i' # post'"
    "path i' = str (d_path entry_outer)" "time i' = isoformat (snd st)"
    by iprover
  with raw n3 t3 have third: "\<exists>raw st pre nested post i.
      analyze_folder_loop ?rt ([] @ entry_outer # [entry_z]) = Inr raw \<and>
      map name raw = [''leaf.txt'', ''inner.zip'', ''readme.txt'', ''outer.zip'', ''z.txt''] \<and>
      map time raw =
        [''(2024, 3, 9, 7, 5, 0)'', ''(2024, 3, 9, 7, 5, 0)'', ''(2024, 3, 9, 7, 5, 0)'',
         ''2024-03-09T07:05:01'', ''2024-03-09T07:05:01''] \<and>
      stat entry_outer = Some st \<and>
      raw = pre @ nested @ i # post \<and>
      path i = str (d_path entry_outer) \<and> time i = isoformat (snd st)"
    by iprover
  have "\<exists>sorted_items. analyze_folder ?rt [entry_outer, entry_z] = Inr sorted_items \<and>
      map name sorted_items =
        [''outer.zip'', ''inner.zip'', ''leaf.txt'', ''readme.txt'', ''z.txt''] \<and>
      map time sorted_items =
        [''2024-03-09T07:05:01'', ''(2024, 3, 9, 7, 5, 0)'', ''(2024, 3, 9, 7, 5, 0)'',
         ''(2024, 3, 9, 7, 5, 0)'', ''2024-03-09T07:05:01'']"
    by (simp add: ex eval)
  then obtain sorted_items where
    s: "analyze_folder ?rt [entry_outer, entry_z] = Inr sorted_items" and
    n4: "map name sorted_items =
      [''outer.zip'', ''inner.zip'', ''leaf.txt'', ''readme.txt'', ''z.txt'']" and
    t4: "map time sorted_items =
        [''2024-03-09T07:05:01'', ''(2024, 3, 9, 7, 5, 0)'', ''(2024, 3, 9, 7, 5, 0)'',
         ''(2024, 3, 9, 7, 5, 0)'', ''2024-03-09T07:05:01'']"
    by iprover
  have "\<forall>i\<in>set sorted_items.
         (\<exists>e\<in>set [entry_outer, entry_z].
            \<not> is_symlink e \<and> stat e \<noteq> None \<and> path i = str (d_path e) \<and>
            time i = isoformat (snd (the (stat e)))) \<or>
         (\<exists>e\<in>set [entry_outer, entry_z]. \<exists>zipf.
            \<not> is_symlink e \<and> zipfile_open e = ZipFile zipf \<and>
            (\<exists>t\<in>set (record_times zipf). time i = str_date_time t))"
    by (rule time_formats
          [THEN conjunct2, THEN conjunct2, THEN conjunct2, THEN conjunct1, THEN mp, OF s])
  with s n4 t4 have fourth: "\<exists>sorted_items.
      analyze_folder ?rt [entry_outer, entry_z] = Inr sorted_items \<and>
      map name sorted_items =
        [''outer.zip'', ''inner.zip'', ''leaf.txt'', ''readme.txt'', ''z.txt''] \<and>
      map time sorted_items =
        [''2024-03-09T07:05:01'', ''(2024, 3, 9, 7, 5, 0)'', ''(2024, 3, 9, 7, 5, 0)'',
         ''(2024, 3, 9, 7, 5, 0)'', ''2024-03-09T07:05:01''] \<and>
      (\<forall>i\<in>set sorted_items.
         (\<exists>e\<in>set [entry_outer, entry_z].
            \<not> is_symlink e \<and> stat e \<noteq> None \<and> path i = str (d_path e) \<and>
            time i = isoformat (snd (the (stat e)))) \<or>
         (\<exists>e\<in>set [entry_outer, entry_z]. \<exists>zipf.
            \<not> is_symlink e \<and> zipfile_open e = ZipFile zipf \<and>
            (\<exists>t\<in>set (record_times zipf). time i = str_date_time t)))"
    by iprover
  have fifth: "isoformat mtime0 \<noteq> str_date_time stamp0"
    by (rule time_formats
          [THEN conjunct2, THEN conjunct2, THEN conjunct2, THEN conjunct2, THEN spec, THEN spec])
  from first second third fourth fifth show ?thesis by iprover
qed

end
